theory Spec2Isabelle
  imports Complex_Main
begin

section \<open>Nostalgia score (Algorithm 3 of the algorithm write-up)\<close>

text \<open>
  Years are integers; popularity metrics and scores are modelled as real numbers (the
  source computes in floating point; the model is the exact arithmetic it approximates).
\<close>

definition PEAK_AGE :: real where "PEAK_AGE = 13"
definition WIDTH :: real where "WIDTH = 8"
definition PREBIRTH_DECAY :: real where "PREBIRTH_DECAY = 3 / 100"
definition CULTURAL_WEIGHT :: real where "CULTURAL_WEIGHT = 4 / 10"
definition BASE_WEIGHT :: real where "BASE_WEIGHT = 7 / 10"
definition POP_BOOST :: real where "POP_BOOST = 3 / 10"

text \<open>Algorithm 3a: the reminiscence bump, with exponential decay before birth.\<close>

definition age_nostalgia :: "int \<Rightarrow> real" where
  "age_nostalgia age_at_release =
     (if age_at_release \<ge> 0
      then exp (- ((real_of_int age_at_release - PEAK_AGE)\<^sup>2 / (2 * WIDTH\<^sup>2)))
      else (let birth_point_score = exp (- ((0 - PEAK_AGE)\<^sup>2 / (2 * WIDTH\<^sup>2)))
            in birth_point_score * exp (- PREBIRTH_DECAY * \<bar>real_of_int age_at_release\<bar>)))"

text \<open>Algorithm 3b: linear or logarithmic popularity.\<close>

definition popularity_score :: "real \<Rightarrow> real \<Rightarrow> bool \<Rightarrow> real" where
  "popularity_score rating_count max_count use_linear =
     (if rating_count \<le> 0 \<or> max_count \<le> 0 then 0
      else if use_linear then min 1 (rating_count / max_count)
      else ln (1 + rating_count) / ln (1 + max_count))"

text \<open>Steps 4 and 5 of Algorithm 3.\<close>

definition personal_nostalgia :: "real \<Rightarrow> real \<Rightarrow> real" where
  "personal_nostalgia age_score pop_score = age_score * (BASE_WEIGHT + POP_BOOST * pop_score)"

definition cultural_nostalgia :: "int \<Rightarrow> real \<Rightarrow> real" where
  "cultural_nostalgia age_at_release pop_score =
     (if age_at_release < 0 then pop_score * CULTURAL_WEIGHT else 0)"

text \<open>The sum of step 6 before it is clamped.\<close>

definition final_score :: "int \<Rightarrow> int \<Rightarrow> real \<Rightarrow> real \<Rightarrow> bool \<Rightarrow> real" where
  "final_score birth_year release_year rating_count max_count use_linear =
     (let age_at_release = release_year - birth_year;
          age_score = age_nostalgia age_at_release;
          pop_score = popularity_score rating_count max_count use_linear
      in personal_nostalgia age_score pop_score + cultural_nostalgia age_at_release pop_score)"

text \<open>
  \<open>round(score, 3)\<close>: rounding to the nearest multiple of 1/1000; an exact tie goes to the
  even neighbour, as the rounding of the implementation language does.
\<close>

definition round_half_even :: "real \<Rightarrow> int" where
  "round_half_even x =
     (let f = \<lfloor>x\<rfloor>; r = x - of_int f
      in if r < 1 / 2 then f else if 1 / 2 < r then f + 1 else if even f then f else f + 1)"

definition round3 :: "real \<Rightarrow> real" where
  "round3 x = of_int (round_half_even (x * 1000)) / 1000"

definition clamp01 :: "real \<Rightarrow> real" where
  "clamp01 x = min 1 (max 0 x)"

definition nostalgia_score :: "int \<Rightarrow> int \<Rightarrow> real \<Rightarrow> real \<Rightarrow> bool \<Rightarrow> real" where
  "nostalgia_score birth_year release_year rating_count max_count use_linear =
     round3 (clamp01 (final_score birth_year release_year rating_count max_count use_linear))"

section \<open>Genre normalization (Algorithm 8)\<close>

text \<open>The twelve canonical arms of the bandit (the constant \<open>ARMS\<close> of Algorithm 5).\<close>

definition ARMS :: "string list" where
  "ARMS = [''drama'', ''comedy'', ''action'', ''romance'', ''thriller'', ''other_movie'',
           ''pop'', ''rock'', ''hiphop'', ''rnb'', ''country'', ''other_song'']"

definition MOVIE_GENRE_MAP :: "(string \<times> string) list" where
  "MOVIE_GENRE_MAP =
     [(''drama'', ''drama''), (''comedy'', ''comedy''), (''action'', ''action''),
      (''adventure'', ''action''), (''romance'', ''romance''), (''thriller'', ''thriller''),
      (''horror'', ''thriller''), (''crime'', ''thriller''), (''sci-fi'', ''action''),
      (''animation'', ''comedy''), (''family'', ''comedy''), (''fantasy'', ''action''),
      (''mystery'', ''thriller''), (''war'', ''drama''), (''documentary'', ''other_movie''),
      (''musical'', ''comedy''), (''history'', ''drama'')]"

definition SONG_GENRE_MAP :: "(string \<times> string) list" where
  "SONG_GENRE_MAP =
     [(''pop'', ''pop''), (''rock'', ''rock''), (''alternative'', ''rock''), (''indie'', ''rock''),
      (''hip hop'', ''hiphop''), (''hip-hop'', ''hiphop''), (''rap'', ''hiphop''),
      (''r&b'', ''rnb''), (''rnb'', ''rnb''), (''soul'', ''rnb''), (''blues'', ''rnb''),
      (''country'', ''country''), (''folk'', ''country''),
      (''electronic'', ''pop''), (''dance'', ''pop''), (''edm'', ''pop''), (''latin'', ''pop''),
      (''metal'', ''rock''), (''punk'', ''rock''),
      (''jazz'', ''other_song''), (''classical'', ''other_song''), (''reggae'', ''other_song'')]"

text \<open>
  A character is read as a code point below 256. Lower-casing moves the letters A to Z
  and the accented capitals 192 to 214 and 216 to 222 to their lower-case forms, 32
  places up; every other character is left as it is.
\<close>

definition to_lower_char :: "char \<Rightarrow> char" where
  "to_lower_char c =
     (let k = (of_char c :: nat)
      in if (65 \<le> k \<and> k \<le> 90) \<or> (192 \<le> k \<and> k \<le> 214) \<or> (216 \<le> k \<and> k \<le> 222)
         then char_of (k + 32) else c)"

definition to_lower_case :: "string \<Rightarrow> string" where
  "to_lower_case s = map to_lower_char s"

text \<open>
  Whitespace removed by \<open>trim\<close>, among the code points below 256: tab, line feed,
  vertical tab, form feed, carriage return (9 to 13), the four separators 28 to 31,
  space (32), next line (133) and no-break space (160).
\<close>

definition is_space :: "char \<Rightarrow> bool" where
  "is_space c =
     (let k = (of_char c :: nat)
      in (9 \<le> k \<and> k \<le> 13) \<or> (28 \<le> k \<and> k \<le> 32) \<or> k = 133 \<or> k = 160)"

definition trim :: "string \<Rightarrow> string" where
  "trim s = rev (dropWhile is_space (rev (dropWhile is_space s)))"

text \<open>\<open>raw_genre.split("|")[0]\<close>: the text before the first separator.\<close>

definition first_of_split :: "string \<Rightarrow> string" where
  "first_of_split s = takeWhile (\<lambda>c. c \<noteq> CHR ''|'') s"

definition lookup_or :: "(string \<times> string) list \<Rightarrow> string \<Rightarrow> string \<Rightarrow> string" where
  "lookup_or table key dflt = (case map_of table key of Some v \<Rightarrow> v | None \<Rightarrow> dflt)"

definition normalize_genre :: "string \<Rightarrow> string \<Rightarrow> string" where
  "normalize_genre raw_genre content_type =
     (if raw_genre = []
      then (if content_type = ''movie'' then ''other_movie'' else ''other_song'')
      else (let first_genre = trim (to_lower_case (first_of_split raw_genre))
            in if content_type = ''movie''
               then lookup_or MOVIE_GENRE_MAP first_genre ''other_movie''
               else lookup_or SONG_GENRE_MAP first_genre ''other_song''))"

section \<open>Candidates and the candidate filter (Algorithm 1, step 5)\<close>

text \<open>
  A candidate as the recommendation flow builds it. \<open>c_genre\<close> is the genre text of the
  item (the \<open>genres\<close> of a movie, the \<open>genre\<close> of a song).
\<close>

record candidate =
  c_type :: string
  c_id :: string
  c_genre :: string
  c_year :: int
  c_nostalgia_score :: real
  c_similarity_score :: real

definition MIN_NOSTALGIA_SCORE :: real where "MIN_NOSTALGIA_SCORE = 3 / 10"

text \<open>Removal of the items whose id occurs in the recent feedback.\<close>

definition remove_recent :: "string list \<Rightarrow> candidate list \<Rightarrow> candidate list" where
  "remove_recent recent_ids candidates =
     filter (\<lambda>c. c_id c \<notin> set recent_ids) candidates"

definition filter_candidates :: "string list \<Rightarrow> candidate list \<Rightarrow> candidate list" where
  "filter_candidates recent_ids candidates =
     (let candidates = remove_recent recent_ids candidates;
          nostalgic_candidates = filter (\<lambda>c. c_nostalgia_score c \<ge> MIN_NOSTALGIA_SCORE) candidates
      in if length nostalgic_candidates > 0 then nostalgic_candidates else candidates)"

definition get_arm :: "candidate \<Rightarrow> string" where
  "get_arm c = normalize_genre (c_genre c) (c_type c)"

section \<open>Context features (Algorithm 7)\<close>

type_synonym vec = "real list"
type_synonym mat = "real list list"

definition CONTEXT_DIM :: nat where "CONTEXT_DIM = 12"
definition BIRTH_YEAR_CENTER :: real where "BIRTH_YEAR_CENTER = 2000"
definition BIRTH_YEAR_SCALE :: real where "BIRTH_YEAR_SCALE = 40"

definition EMOTIONS :: "string list" where
  "EMOTIONS = [''anger'', ''fear'', ''joy'', ''love'', ''neutral'', ''sadness'', ''surprise'']"

text \<open>Padding with zeros up to the dimension, then keeping the first \<open>d\<close> entries.\<close>

definition ensure_shape :: "nat \<Rightarrow> vec \<Rightarrow> vec" where
  "ensure_shape d context = take d (context @ replicate (d - length context) 0)"

definition build_context_features :: "real \<Rightarrow> string \<Rightarrow> real \<Rightarrow> int option \<Rightarrow> vec" where
  "build_context_features stress_score emotion user_positive_rate birth_year =
     (let features = [stress_score]
            @ map (\<lambda>e. if e = emotion then 1 else 0) EMOTIONS
            @ [user_positive_rate]
            @ [case birth_year of
                 Some y \<Rightarrow> (real_of_int y - BIRTH_YEAR_CENTER) / BIRTH_YEAR_SCALE
               | None \<Rightarrow> 0]
      in ensure_shape CONTEXT_DIM features)"

section \<open>Vectors and matrices\<close>

text \<open>
  A vector is the list of its entries, a matrix the list of its rows. The operations
  are the ones the LinUCB recurrences use.
\<close>

definition dot :: "vec \<Rightarrow> vec \<Rightarrow> real" where
  "dot u v = sum_list (map2 (*) u v)"

definition vec_add :: "vec \<Rightarrow> vec \<Rightarrow> vec" where
  "vec_add u v = map2 (+) u v"

definition scale :: "real \<Rightarrow> vec \<Rightarrow> vec" where
  "scale r v = map ((*) r) v"

definition zero_vec :: "nat \<Rightarrow> vec" where
  "zero_vec n = replicate n 0"

definition outer :: "vec \<Rightarrow> vec \<Rightarrow> mat" where
  "outer x y = map (\<lambda>xi. scale xi y) x"

definition mat_add :: "mat \<Rightarrow> mat \<Rightarrow> mat" where
  "mat_add A B = map2 vec_add A B"

definition mat_vec :: "mat \<Rightarrow> vec \<Rightarrow> vec" where
  "mat_vec A v = map (\<lambda>row. dot row v) A"

definition identity :: "nat \<Rightarrow> mat" where
  "identity n = map (\<lambda>i. map (\<lambda>j. if i = j then 1 else 0) [0..<n]) [0..<n]"

definition mat_mul :: "nat \<Rightarrow> mat \<Rightarrow> mat \<Rightarrow> mat" where
  "mat_mul n A B =
     map (\<lambda>i. map (\<lambda>j. sum_list (map (\<lambda>k. A ! i ! k * B ! k ! j) [0..<n])) [0..<n]) [0..<n]"

text \<open>Well-formedness: a vector of \<open>n\<close> entries, a matrix of \<open>n\<close> rows of \<open>n\<close> entries.\<close>

definition is_vec :: "nat \<Rightarrow> vec \<Rightarrow> bool" where
  "is_vec n v = (length v = n)"

definition is_mat :: "nat \<Rightarrow> mat \<Rightarrow> bool" where
  "is_mat n A = (length A = n \<and> list_all (\<lambda>row. length row = n) A)"

definition symmetric :: "nat \<Rightarrow> mat \<Rightarrow> bool" where
  "symmetric n A = list_all (\<lambda>i. list_all (\<lambda>j. A ! i ! j = A ! j ! i) [0..<n]) [0..<n]"

text \<open>\<open>B\<close> is the inverse of \<open>A\<close>: both products are the identity.\<close>

definition is_inverse :: "nat \<Rightarrow> mat \<Rightarrow> mat \<Rightarrow> bool" where
  "is_inverse n A B = (is_mat n B \<and> mat_mul n A B = identity n \<and> mat_mul n B A = identity n)"

section \<open>One LinUCB arm (steps 5 to 7 of the feedback loop)\<close>

text \<open>
  The ridge regression of one arm holds the matrix \<open>A\<close> and the vector \<open>b\<close>; the weight
  vector \<open>\<theta> = A\<^sup>-\<^sup>1 b\<close> is derived from them.
\<close>

record arm_state =
  arm_A :: mat
  arm_b :: vec

definition init_arm :: "nat \<Rightarrow> arm_state" where
  "init_arm d = \<lparr>arm_A = identity d, arm_b = zero_vec d\<rparr>"

text \<open>Step 5: \<open>A \<leftarrow> A + x x\<^sup>T\<close>; step 6: \<open>b \<leftarrow> b + r x\<close>.\<close>

definition arm_update :: "vec \<Rightarrow> real \<Rightarrow> arm_state \<Rightarrow> arm_state" where
  "arm_update x r s =
     \<lparr>arm_A = mat_add (arm_A s) (outer x x), arm_b = vec_add (arm_b s) (scale r x)\<rparr>"

text \<open>
  Step 7: \<open>\<theta> = A\<^sup>-\<^sup>1 b\<close>, written as the linear system that \<open>\<theta>\<close> solves,
  \<open>A \<theta> = b\<close>; for an invertible \<open>A\<close> the two say the same.
\<close>

definition is_theta :: "arm_state \<Rightarrow> vec \<Rightarrow> bool" where
  "is_theta s \<theta> = (is_vec (length (arm_b s)) \<theta> \<and> mat_vec (arm_A s) \<theta> = arm_b s)"

text \<open>The expected reward \<open>\<theta>\<^sup>T x\<close> of a context under the weights \<open>\<theta>\<close>.\<close>

definition expected_reward :: "vec \<Rightarrow> vec \<Rightarrow> real" where
  "expected_reward \<theta> x = dot \<theta> x"

text \<open>The states an arm reaches from the identity matrix by updates with shaped contexts.\<close>

inductive reachable_arm :: "arm_state \<Rightarrow> bool" where
  reachable_init: "reachable_arm (init_arm CONTEXT_DIM)"
| reachable_update:
    "reachable_arm s \<Longrightarrow> reachable_arm (arm_update (ensure_shape CONTEXT_DIM context) r s)"

section \<open>The LinUCB model (Algorithms 5 and 6)\<close>

record linucb_model =
  mab :: "string \<Rightarrow> arm_state"
  is_fitted :: bool
  n_updates :: nat

definition init_model :: linucb_model where
  "init_model = \<lparr>mab = (\<lambda>arm. init_arm CONTEXT_DIM), is_fitted = False, n_updates = 0\<rparr>"

text \<open>
  \<open>MAB.fit\<close> initialises every arm and trains the decided arm on the observation;
  \<open>MAB.partial_fit\<close> trains the decided arm from its current state.
\<close>

definition mab_fit :: "string \<Rightarrow> real \<Rightarrow> vec \<Rightarrow> (string \<Rightarrow> arm_state)" where
  "mab_fit arm reward x =
     (\<lambda>a. init_arm CONTEXT_DIM)(arm := arm_update x reward (init_arm CONTEXT_DIM))"

definition mab_partial_fit ::
  "string \<Rightarrow> real \<Rightarrow> vec \<Rightarrow> (string \<Rightarrow> arm_state) \<Rightarrow> (string \<Rightarrow> arm_state)" where
  "mab_partial_fit arm reward x arms = arms(arm := arm_update x reward (arms arm))"

definition binarize :: "real \<Rightarrow> real" where
  "binarize reward = (if reward > 1 / 2 then 1 else 0)"

definition linucb_update :: "vec \<Rightarrow> candidate \<Rightarrow> real \<Rightarrow> linucb_model \<Rightarrow> linucb_model" where
  "linucb_update context cand reward m =
     (let x = ensure_shape CONTEXT_DIM context;
          arm = get_arm cand;
          binary_reward = binarize reward
      in if \<not> is_fitted m
         then m\<lparr>mab := mab_fit arm binary_reward x, is_fitted := True,
                n_updates := n_updates m + 1\<rparr>
         else m\<lparr>mab := mab_partial_fit arm binary_reward x (mab m),
                n_updates := n_updates m + 1\<rparr>)"

text \<open>
  Selection. The expectations of the regression library and the random number source
  are parameters: \<open>predict_expectations\<close> gives the score of every arm for a context,
  \<open>random_integer g n\<close> draws an index below \<open>n\<close> and returns the next generator state.
  Selecting from an empty list raises in both branches.
\<close>

datatype select_error = EmptyCandidates

definition linucb_select ::
  "((string \<Rightarrow> arm_state) \<Rightarrow> vec \<Rightarrow> string \<Rightarrow> real) \<Rightarrow> ('g \<Rightarrow> nat \<Rightarrow> nat \<times> 'g)
   \<Rightarrow> linucb_model \<Rightarrow> vec \<Rightarrow> candidate list \<Rightarrow> 'g \<Rightarrow> select_error + ((nat \<times> real) \<times> 'g)" where
  "linucb_select predict_expectations random_integer m context candidates g =
     (let x = ensure_shape CONTEXT_DIM context
      in if \<not> is_fitted m
         then (if candidates = [] then Inl EmptyCandidates
               else (let (idx, g') = random_integer g (length candidates)
                     in Inr ((idx, 1 / 2), g')))
         else (let arms = map get_arm candidates;
                   scores = map (\<lambda>i. (i, if arms ! i \<in> set ARMS
                                          then predict_expectations (mab m) x (arms ! i)
                                          else 1 / 2))
                                [0..<length candidates];
                   sorted = sort_key (\<lambda>p. - snd p) scores
               in case sorted of
                    [] \<Rightarrow> Inl EmptyCandidates
                  | best # rest \<Rightarrow> Inr (best, g)))"

section \<open>The hierarchical bandit (Algorithm 4)\<close>

definition MIN_USER_UPDATES :: nat where "MIN_USER_UPDATES = 10"
definition MAX_BLEND :: real where "MAX_BLEND = 7 / 10"

record hierarchical_bandit =
  global_model :: linucb_model
  user_models :: "string \<rightharpoonup> linucb_model"

definition get_or_create_user_model ::
  "hierarchical_bandit \<Rightarrow> string \<Rightarrow> linucb_model \<times> hierarchical_bandit" where
  "get_or_create_user_model hb user_id =
     (case user_models hb user_id of
        Some m \<Rightarrow> (m, hb)
      | None \<Rightarrow> (init_model, hb\<lparr>user_models := (user_models hb)(user_id \<mapsto> init_model)\<rparr>))"

definition hierarchical_select ::
  "((string \<Rightarrow> arm_state) \<Rightarrow> vec \<Rightarrow> string \<Rightarrow> real) \<Rightarrow> ('g \<Rightarrow> nat \<Rightarrow> nat \<times> 'g)
   \<Rightarrow> hierarchical_bandit \<Rightarrow> string \<Rightarrow> vec \<Rightarrow> candidate list \<Rightarrow> 'g
   \<Rightarrow> select_error + ((nat \<times> real) \<times> hierarchical_bandit \<times> 'g)" where
  "hierarchical_select predict_expectations random_integer hb user_id context candidates g =
     (case linucb_select predict_expectations random_integer (global_model hb)
             context candidates g of
        Inl e \<Rightarrow> Inl e
      | Inr (global_sel, g1) \<Rightarrow>
          (let (user_model, hb') = get_or_create_user_model hb user_id
           in if n_updates user_model < MIN_USER_UPDATES
              then Inr (global_sel, hb', g1)
              else (case linucb_select predict_expectations random_integer user_model
                           context candidates g1 of
                      Inl e \<Rightarrow> Inl e
                    | Inr (user_sel, g2) \<Rightarrow>
                        (let blend = min (real (n_updates user_model) / 50) MAX_BLEND
                         in if snd user_sel * blend > snd global_sel * (1 - blend)
                            then Inr (user_sel, hb', g2)
                            else Inr (global_sel, hb', g2)))))"

text \<open>The index and score of a selection, without the state that comes with it.\<close>

definition selection :: "select_error + ((nat \<times> real) \<times> 's) \<Rightarrow> select_error + (nat \<times> real)" where
  "selection res = map_sum id fst res"

section \<open>Properties of the nostalgia score\<close>

subsection \<open>Rounding and clamping\<close>

lemma round_half_even_of_int: "round_half_even (of_int k) = k"
  by (simp add: round_half_even_def)

lemma round_half_even_ge_floor: "\<lfloor>x\<rfloor> \<le> round_half_even x"
  by (simp add: round_half_even_def Let_def)

lemma round_half_even_le_floor1: "round_half_even x \<le> \<lfloor>x\<rfloor> + 1"
  by (simp add: round_half_even_def Let_def)

lemma round_half_even_mono:
  assumes "x \<le> y"
  shows "round_half_even x \<le> round_half_even y"
proof (cases "\<lfloor>x\<rfloor> = \<lfloor>y\<rfloor>")
  case True
  with assms show ?thesis
    by (auto simp add: round_half_even_def Let_def)
next
  case False
  from assms have "\<lfloor>x\<rfloor> \<le> \<lfloor>y\<rfloor>" by (rule floor_mono)
  with False have "\<lfloor>x\<rfloor> + 1 \<le> \<lfloor>y\<rfloor>" by simp
  with round_half_even_le_floor1 [of x] round_half_even_ge_floor [of y]
  show ?thesis by linarith
qed

lemma round3_mono: "x \<le> y \<Longrightarrow> round3 x \<le> round3 y"
  by (simp add: round3_def round_half_even_mono divide_right_mono)

lemma round3_exact: "round3 (of_int k / 1000) = of_int k / 1000"
  by (simp add: round3_def round_half_even_of_int)

lemma round3_0: "round3 0 = 0"
  using round3_exact [of 0] by simp

lemma round3_1: "round3 1 = 1"
  using round3_exact [of 1000] by simp

lemma clamp01_range: "0 \<le> clamp01 x \<and> clamp01 x \<le> 1"
  by (simp add: clamp01_def)

lemma clamp01_mono: "x \<le> y \<Longrightarrow> clamp01 x \<le> clamp01 y"
  by (auto simp add: clamp01_def min_def max_def)

lemma clamp01_id: "0 \<le> x \<Longrightarrow> x \<le> 1 \<Longrightarrow> clamp01 x = x"
  by (simp add: clamp01_def)

lemma round3_clamp01_range: "0 \<le> round3 (clamp01 x) \<and> round3 (clamp01 x) \<le> 1"
proof -
  have "round3 0 \<le> round3 (clamp01 x)" and "round3 (clamp01 x) \<le> round3 1"
    using clamp01_range [of x] by (simp_all add: round3_mono)
  then show ?thesis by (simp add: round3_0 round3_1)
qed

text \<open>
  C1: for every birth year, release year, rating count, maximum count and scaling mode,
  the nostalgia score lies between 0 and 1 inclusive.
\<close>

theorem nostalgia_score_range:
  "0 \<le> nostalgia_score birth_year release_year rating_count max_count use_linear
   \<and> nostalgia_score birth_year release_year rating_count max_count use_linear \<le> 1"
  unfolding nostalgia_score_def by (rule round3_clamp01_range)

subsection \<open>The components of the score\<close>

lemma popularity_score_nonneg: "0 \<le> popularity_score rating_count max_count use_linear"
  by (simp add: popularity_score_def)

lemma popularity_score_le_1:
  assumes "use_linear \<or> rating_count \<le> max_count"
  shows "popularity_score rating_count max_count use_linear \<le> 1"
  using assms by (auto simp add: popularity_score_def)

lemma popularity_score_at_max:
  assumes "0 < max_count"
  shows "popularity_score max_count max_count use_linear = 1"
  using assms by (simp add: popularity_score_def)

lemma age_nostalgia_pos: "0 < age_nostalgia a"
  by (simp add: age_nostalgia_def Let_def)

lemma age_nostalgia_le_1: "age_nostalgia a \<le> 1"
proof (cases "0 \<le> a")
  case True
  then show ?thesis by (simp add: age_nostalgia_def WIDTH_def)
next
  case False
  have "exp (- ((0 - PEAK_AGE)\<^sup>2 / (2 * WIDTH\<^sup>2))) \<le> 1"
    by (simp add: WIDTH_def)
  moreover have "exp (- PREBIRTH_DECAY * \<bar>real_of_int a\<bar>) \<le> 1"
    by (simp add: PREBIRTH_DECAY_def)
  ultimately have "exp (- ((0 - PEAK_AGE)\<^sup>2 / (2 * WIDTH\<^sup>2))) * exp (- PREBIRTH_DECAY * \<bar>real_of_int a\<bar>) \<le> 1 * 1"
    by (intro mult_mono) simp_all
  with False show ?thesis by (simp add: age_nostalgia_def Let_def)
qed

lemma age_nostalgia_peak: "age_nostalgia 13 = 1"
  by (simp add: age_nostalgia_def PEAK_AGE_def)

lemma birth_point_bound: "exp (- ((0 - PEAK_AGE)\<^sup>2 / (2 * WIDTH\<^sup>2))) < 3 / 5"
proof -
  have "1 + (169 / 128 :: real) \<le> exp (169 / 128)" by (rule exp_ge_add_one_self)
  then have "(5 / 3 :: real) < exp (169 / 128)" by simp
  then have "inverse (exp (169 / 128 :: real)) < inverse (5 / 3)"
    by (subst inverse_less_iff_less) simp_all
  then show ?thesis
    by (simp add: PEAK_AGE_def WIDTH_def exp_minus)
qed

lemma age_nostalgia_prebirth_bound:
  assumes "a < 0"
  shows "age_nostalgia a < 3 / 5"
proof -
  define bp where "bp = exp (- ((0 - PEAK_AGE)\<^sup>2 / (2 * WIDTH\<^sup>2)))"
  define dc where "dc = exp (- PREBIRTH_DECAY * \<bar>real_of_int a\<bar>)"
  have "dc \<le> 1" by (simp add: dc_def PREBIRTH_DECAY_def)
  moreover have "0 < bp" by (simp add: bp_def)
  ultimately have "bp * dc \<le> bp * 1" by (intro mult_left_mono) simp_all
  moreover have "bp < 3 / 5" unfolding bp_def by (rule birth_point_bound)
  moreover have "age_nostalgia a = bp * dc"
    using assms by (simp add: age_nostalgia_def Let_def bp_def dc_def)
  ultimately show ?thesis by simp
qed

lemma age_nostalgia_eq_1_iff: "age_nostalgia a = 1 \<longleftrightarrow> a = 13"
proof (cases "0 \<le> a")
  case True
  then show ?thesis by (auto simp add: age_nostalgia_def PEAK_AGE_def WIDTH_def)
next
  case False
  then have "a < 0" by simp
  then have "age_nostalgia a < 3 / 5" by (rule age_nostalgia_prebirth_bound)
  with False show ?thesis by auto
qed

lemma weight_pos:
  assumes "0 \<le> p"
  shows "0 < BASE_WEIGHT + POP_BOOST * p"
proof -
  have "0 \<le> POP_BOOST * p" using assms by (simp add: POP_BOOST_def)
  then show ?thesis by (simp add: BASE_WEIGHT_def add_pos_nonneg)
qed

lemma weight_le_1:
  assumes "p \<le> 1"
  shows "BASE_WEIGHT + POP_BOOST * p \<le> 1"
  using assms by (simp add: BASE_WEIGHT_def POP_BOOST_def)

lemma final_score_unfold:
  "final_score birth_year release_year rating_count max_count use_linear =
     age_nostalgia (release_year - birth_year)
       * (BASE_WEIGHT + POP_BOOST * popularity_score rating_count max_count use_linear)
     + cultural_nostalgia (release_year - birth_year)
         (popularity_score rating_count max_count use_linear)"
  by (simp add: final_score_def Let_def personal_nostalgia_def)

lemma final_score_nonneg:
  "0 \<le> final_score birth_year release_year rating_count max_count use_linear"
proof -
  let ?p = "popularity_score rating_count max_count use_linear"
  let ?a = "release_year - birth_year"
  have p: "0 \<le> ?p" by (rule popularity_score_nonneg)
  have "0 \<le> age_nostalgia ?a * (BASE_WEIGHT + POP_BOOST * ?p)"
    using age_nostalgia_pos [of ?a] weight_pos [OF p] by simp
  moreover have "0 \<le> cultural_nostalgia ?a ?p"
    using p by (simp add: cultural_nostalgia_def CULTURAL_WEIGHT_def)
  ultimately show ?thesis by (simp add: final_score_unfold)
qed

lemma final_score_post_birth:
  assumes "0 \<le> release_year - birth_year"
      and "popularity_score rating_count max_count use_linear \<le> 1"
  shows "final_score birth_year release_year rating_count max_count use_linear \<le> 1"
    and "final_score birth_year release_year rating_count max_count use_linear = 1
         \<longleftrightarrow> release_year - birth_year = 13
               \<and> popularity_score rating_count max_count use_linear = 1"
proof -
  let ?p = "popularity_score rating_count max_count use_linear"
  let ?a = "release_year - birth_year"
  let ?w = "BASE_WEIGHT + POP_BOOST * ?p"
  have p: "0 \<le> ?p" by (rule popularity_score_nonneg)
  have w: "0 < ?w" "?w \<le> 1" using weight_pos [OF p] weight_le_1 [OF assms(2)] by simp_all
  have a: "0 < age_nostalgia ?a" "age_nostalgia ?a \<le> 1"
    by (simp_all add: age_nostalgia_pos age_nostalgia_le_1)
  have f: "final_score birth_year release_year rating_count max_count use_linear
             = age_nostalgia ?a * ?w"
    using assms(1) by (simp add: final_score_unfold cultural_nostalgia_def)
  have le: "age_nostalgia ?a * ?w \<le> 1 * 1"
    using a w by (intro mult_mono) simp_all
  then show "final_score birth_year release_year rating_count max_count use_linear \<le> 1"
    by (simp add: f)
  have "age_nostalgia ?a * ?w = 1 \<longleftrightarrow> age_nostalgia ?a = 1 \<and> ?w = 1"
  proof
    assume e: "age_nostalgia ?a * ?w = 1"
    have "age_nostalgia ?a * ?w \<le> age_nostalgia ?a * 1"
      using a w by (intro mult_left_mono) simp_all
    with e a have a1: "age_nostalgia ?a = 1" by simp
    with e show "age_nostalgia ?a = 1 \<and> ?w = 1" by simp
  next
    assume "age_nostalgia ?a = 1 \<and> ?w = 1"
    then show "age_nostalgia ?a * ?w = 1" by simp
  qed
  moreover have "?w = 1 \<longleftrightarrow> ?p = 1"
    unfolding BASE_WEIGHT_def POP_BOOST_def by auto
  ultimately show "final_score birth_year release_year rating_count max_count use_linear = 1
         \<longleftrightarrow> ?a = 13 \<and> ?p = 1"
    by (simp add: f age_nostalgia_eq_1_iff)
qed

lemma final_score_pre_birth:
  assumes "release_year - birth_year < 0"
      and "popularity_score rating_count max_count use_linear \<le> 1"
  shows "final_score birth_year release_year rating_count max_count use_linear < 1"
proof -
  let ?p = "popularity_score rating_count max_count use_linear"
  let ?a = "release_year - birth_year"
  let ?w = "BASE_WEIGHT + POP_BOOST * ?p"
  have p: "0 \<le> ?p" by (rule popularity_score_nonneg)
  have w: "0 < ?w" "?w \<le> 1" using weight_pos [OF p] weight_le_1 [OF assms(2)] by simp_all
  have a: "0 < age_nostalgia ?a" "age_nostalgia ?a < 3 / 5"
    using age_nostalgia_pos [of ?a] age_nostalgia_prebirth_bound [OF assms(1)] by - assumption+
  have "age_nostalgia ?a * ?w \<le> age_nostalgia ?a * 1"
    using a(1) w by (intro mult_left_mono) simp_all
  with a(2) have "age_nostalgia ?a * ?w < 3 / 5" by linarith
  moreover have "cultural_nostalgia ?a ?p \<le> 2 / 5"
    using assms by (simp add: cultural_nostalgia_def CULTURAL_WEIGHT_def)
  ultimately show ?thesis by (simp add: final_score_unfold)
qed

text \<open>
  C2: when the content was released in the year the user turned 13 and the popularity
  input equals the (positive) maximum, the score is exactly 1, and no input scores
  higher; the instance of the specification (born 1990, released 2003) is the witness.
\<close>

theorem nostalgia_score_peak:
  assumes "release_year - birth_year = 13" and "0 < max_count"
  shows "nostalgia_score birth_year release_year max_count max_count use_linear = 1
         \<and> nostalgia_score b r c m l
               \<le> nostalgia_score birth_year release_year max_count max_count use_linear"
proof -
  have p: "popularity_score max_count max_count use_linear = 1"
    using assms(2) by (rule popularity_score_at_max)
  have "0 \<le> release_year - birth_year" using assms(1) by simp
  moreover have "popularity_score max_count max_count use_linear \<le> 1" using p by simp
  ultimately have "final_score birth_year release_year max_count max_count use_linear = 1
      \<longleftrightarrow> release_year - birth_year = 13
            \<and> popularity_score max_count max_count use_linear = 1"
    by (rule final_score_post_birth(2))
  with assms(1) p
  have "final_score birth_year release_year max_count max_count use_linear = 1" by simp
  then have "nostalgia_score birth_year release_year max_count max_count use_linear = 1"
    by (simp add: nostalgia_score_def clamp01_def round3_1)
  moreover have "nostalgia_score b r c m l \<le> 1"
    unfolding nostalgia_score_def using round3_clamp01_range by blast
  ultimately show ?thesis by simp
qed

theorem nostalgia_score_peak_witness:
  "(2003::int) - 1990 = 13 \<and> (0::real) < 100
   \<and> nostalgia_score 1990 2003 100 100 True = 1
   \<and> nostalgia_score 1990 1985 5 100 True \<le> nostalgia_score 1990 2003 100 100 True"
  using nostalgia_score_peak [of 2003 1990 100 True 1990 1985 5 100 True] by simp

text \<open>
  With a popularity score inside its documented range, at most 1, the unclamped sum of
  the personal and the cultural component lies in [0, 1], the clamp leaves it unchanged,
  and it equals 1 exactly at age 13 with popularity score 1. The linear branch caps the
  popularity score at 1; the logarithmic branch gives at most 1 when the rating count
  does not exceed the maximum count.
\<close>

lemma final_score_unit_interval:
  assumes p1: "popularity_score rating_count max_count use_linear \<le> 1"
  shows "0 \<le> final_score birth_year release_year rating_count max_count use_linear
       \<and> final_score birth_year release_year rating_count max_count use_linear \<le> 1
       \<and> clamp01 (final_score birth_year release_year rating_count max_count use_linear)
           = final_score birth_year release_year rating_count max_count use_linear
       \<and> (final_score birth_year release_year rating_count max_count use_linear = 1
            \<longleftrightarrow> release_year - birth_year = 13
                  \<and> popularity_score rating_count max_count use_linear = 1)"
proof -
  let ?f = "final_score birth_year release_year rating_count max_count use_linear"
  have lo: "0 \<le> ?f" by (rule final_score_nonneg)
  show ?thesis
  proof (cases "0 \<le> release_year - birth_year")
    case True
    from final_score_post_birth [OF True p1] lo show ?thesis
      by (simp add: clamp01_id)
  next
    case False
    then have neg: "release_year - birth_year < 0" by simp
    from final_score_pre_birth [OF neg p1] have "?f < 1" .
    with lo neg show ?thesis by (simp add: clamp01_id)
  qed
qed

text \<open>
  C10, at the input where the code breaks it: in logarithmic mode the rating count
  200000 against the maximum count 100000 gives a popularity score above 1, which the
  logarithmic branch does not cap as the linear branch does, and at the peak age the
  unclamped sum exceeds 1, so the clamp does change the value.
\<close>

theorem final_score_exceeds_one:
  "1 < final_score 1990 2003 200000 100000 False
   \<and> clamp01 (final_score 1990 2003 200000 100000 False)
       \<noteq> final_score 1990 2003 200000 100000 False"
proof -
  have "ln (100001 :: real) < ln 200001" by simp
  moreover have "0 < ln (100001 :: real)" by simp
  ultimately have "1 < ln (200001 :: real) / ln 100001" by simp
  then have p: "1 < popularity_score 200000 100000 False"
    by (simp add: popularity_score_def)
  have "final_score 1990 2003 200000 100000 False
          = BASE_WEIGHT + POP_BOOST * popularity_score 200000 100000 False"
    by (simp add: final_score_unfold age_nostalgia_peak cultural_nostalgia_def)
  with p have "1 < final_score 1990 2003 200000 100000 False"
    by (simp add: BASE_WEIGHT_def POP_BOOST_def)
  then show ?thesis by (simp add: clamp01_def)
qed

lemma age_nostalgia_post_birth_mono:
  assumes "0 \<le> a1" and "0 \<le> a2" and "\<bar>a1 - 13\<bar> \<le> \<bar>a2 - 13\<bar>"
  shows "age_nostalgia a2 \<le> age_nostalgia a1"
proof -
  have "\<bar>real_of_int (a1 - 13)\<bar> \<le> \<bar>real_of_int (a2 - 13)\<bar>"
    using assms(3) by linarith
  then have "(real_of_int (a1 - 13))\<^sup>2 \<le> (real_of_int (a2 - 13))\<^sup>2"
    by (rule abs_le_square_iff [THEN iffD1])
  then have "(real_of_int a1 - 13)\<^sup>2 / 128 \<le> (real_of_int a2 - 13)\<^sup>2 / 128"
    by simp
  with assms(1,2) show ?thesis
    by (simp add: age_nostalgia_def PEAK_AGE_def WIDTH_def)
qed

lemma age_nostalgia_pre_birth_mono:
  assumes "a1 < 0" and "a2 \<le> a1"
  shows "age_nostalgia a2 \<le> age_nostalgia a1"
proof -
  define bp where "bp = exp (- ((0 - PEAK_AGE)\<^sup>2 / (2 * WIDTH\<^sup>2)))"
  have "- PREBIRTH_DECAY * \<bar>real_of_int a2\<bar> \<le> - PREBIRTH_DECAY * \<bar>real_of_int a1\<bar>"
    using assms by (simp add: PREBIRTH_DECAY_def)
  then have "exp (- PREBIRTH_DECAY * \<bar>real_of_int a2\<bar>) \<le> exp (- PREBIRTH_DECAY * \<bar>real_of_int a1\<bar>)"
    by simp
  moreover have "0 \<le> bp" by (simp add: bp_def)
  ultimately have "bp * exp (- PREBIRTH_DECAY * \<bar>real_of_int a2\<bar>)
      \<le> bp * exp (- PREBIRTH_DECAY * \<bar>real_of_int a1\<bar>)"
    by (rule mult_left_mono)
  moreover have "age_nostalgia a1 = bp * exp (- PREBIRTH_DECAY * \<bar>real_of_int a1\<bar>)"
    using assms by (simp add: age_nostalgia_def Let_def bp_def)
  moreover have "age_nostalgia a2 = bp * exp (- PREBIRTH_DECAY * \<bar>real_of_int a2\<bar>)"
    using assms by (simp add: age_nostalgia_def Let_def bp_def)
  ultimately show ?thesis by simp
qed

lemma age_nostalgia_pre_vs_post:
  assumes "a1 < 0" and "0 \<le> a2" and "\<bar>a1 - 13\<bar> \<le> \<bar>a2 - 13\<bar>"
  shows "age_nostalgia a2 \<le> age_nostalgia a1"
proof -
  define k where "k = - real_of_int a1"
  have k: "0 < k" using assms(1) by (simp add: k_def)
  have "\<bar>real_of_int (a1 - 13)\<bar> \<le> \<bar>real_of_int (a2 - 13)\<bar>"
    using assms(3) by linarith
  moreover have "\<bar>real_of_int (a1 - 13)\<bar> = \<bar>13 + k\<bar>"
    using assms(1) by (simp add: k_def)
  ultimately have "\<bar>13 + k\<bar> \<le> \<bar>real_of_int a2 - 13\<bar>" by simp
  then have "(13 + k)\<^sup>2 \<le> (real_of_int a2 - 13)\<^sup>2"
    by (rule abs_le_square_iff [THEN iffD1])
  moreover have "(13 + k)\<^sup>2 = 169 + 26 * k + k\<^sup>2"
    by (simp add: power2_eq_square algebra_simps)
  moreover have "0 \<le> k\<^sup>2" by simp
  ultimately have "169 / 128 + 3 / 100 * k \<le> (real_of_int a2 - 13)\<^sup>2 / 128"
    using k by linarith
  then have "exp (- ((real_of_int a2 - 13)\<^sup>2 / 128)) \<le> exp (- (169 / 128) + - (3 / 100 * k))"
    by simp
  also have "\<dots> = exp (- (169 / 128)) * exp (- (3 / 100 * k))"
    by (rule exp_add)
  finally have "exp (- ((real_of_int a2 - 13)\<^sup>2 / 128))
      \<le> exp (- (169 / 128)) * exp (- (3 / 100 * k))" .
  moreover have "age_nostalgia a2 = exp (- ((real_of_int a2 - 13)\<^sup>2 / 128))"
    using assms(2) by (simp add: age_nostalgia_def PEAK_AGE_def WIDTH_def)
  moreover have "age_nostalgia a1 = exp (- (169 / 128)) * exp (- (3 / 100 * k))"
    using assms(1) by (simp add: age_nostalgia_def Let_def PEAK_AGE_def WIDTH_def
        PREBIRTH_DECAY_def k_def)
  ultimately show ?thesis by simp
qed

text \<open>
  C3, amended: for a fixed popularity input and two items of which the one closer to
  age 13 is pre-birth or the farther one is post-birth (both post-birth, both pre-birth,
  or the closer one pre-birth and the farther one post-birth), the item whose age at
  release is at least as close to 13 scores at least as high. Only the pairs with the
  closer item post-birth and the farther item pre-birth are left out.
\<close>

theorem nostalgia_score_monotone_closer:
  assumes side: "release1 - birth1 < 0 \<or> 0 \<le> release2 - birth2"
      and dist: "\<bar>(release1 - birth1) - 13\<bar> \<le> \<bar>(release2 - birth2) - 13\<bar>"
  shows "nostalgia_score birth2 release2 rating_count max_count use_linear
         \<le> nostalgia_score birth1 release1 rating_count max_count use_linear"
proof -
  let ?p = "popularity_score rating_count max_count use_linear"
  let ?a1 = "release1 - birth1" and ?a2 = "release2 - birth2"
  have p: "0 \<le> ?p" by (rule popularity_score_nonneg)
  have w: "0 \<le> BASE_WEIGHT + POP_BOOST * ?p" using weight_pos [OF p] by simp
  consider (post) "0 \<le> ?a1" "0 \<le> ?a2" | (pre) "?a1 < 0" "?a2 < 0"
    | (cross) "?a1 < 0" "0 \<le> ?a2"
    using side by linarith
  then have age: "age_nostalgia ?a2 \<le> age_nostalgia ?a1"
  proof cases
    case post
    with dist show ?thesis by (simp add: age_nostalgia_post_birth_mono)
  next
    case pre
    with dist have "?a2 \<le> ?a1" by linarith
    with pre show ?thesis by (simp add: age_nostalgia_pre_birth_mono)
  next
    case cross
    then show ?thesis using dist by (rule age_nostalgia_pre_vs_post)
  qed
  have cult: "cultural_nostalgia ?a2 ?p \<le> cultural_nostalgia ?a1 ?p"
    using side p by (auto simp add: cultural_nostalgia_def CULTURAL_WEIGHT_def)
  have "age_nostalgia ?a2 * (BASE_WEIGHT + POP_BOOST * ?p)
        \<le> age_nostalgia ?a1 * (BASE_WEIGHT + POP_BOOST * ?p)"
    using age w by (rule mult_right_mono)
  with cult have "final_score birth2 release2 rating_count max_count use_linear
             \<le> final_score birth1 release1 rating_count max_count use_linear"
    by (simp add: final_score_unfold add_mono)
  then show ?thesis
    by (simp add: nostalgia_score_def clamp01_mono round3_mono)
qed

theorem nostalgia_score_monotone_closer_witness:
  "((2003::int) - 1990 < 0 \<or> 0 \<le> (2010::int) - 1990)
   \<and> \<bar>((2003::int) - 1990) - 13\<bar> \<le> \<bar>((2010::int) - 1990) - 13\<bar>
   \<and> nostalgia_score 1990 2010 50 100 True \<le> nostalgia_score 1990 2003 50 100 True
   \<and> ((1985::int) - 1990 < 0 \<or> 0 \<le> (1970::int) - 1990)
   \<and> \<bar>((1985::int) - 1990) - 13\<bar> \<le> \<bar>((1970::int) - 1990) - 13\<bar>
   \<and> nostalgia_score 1990 1970 5000 100000 False
       \<le> nostalgia_score 1990 1985 5000 100000 False
   \<and> ((1989::int) - 1990 < 0 \<or> 0 \<le> (2020::int) - 1990)
   \<and> \<bar>((1989::int) - 1990) - 13\<bar> \<le> \<bar>((2020::int) - 1990) - 13\<bar>
   \<and> nostalgia_score 1990 2020 5000 100000 False
       \<le> nostalgia_score 1990 1989 5000 100000 False"
  using nostalgia_score_monotone_closer [of 2003 1990 2010 1990 50 100 True]
    nostalgia_score_monotone_closer [of 1985 1990 1970 1990 5000 100000 False]
    nostalgia_score_monotone_closer [of 1989 1990 2020 1990 5000 100000 False]
  by simp

text \<open>
  C3 as stated fails when the closer item is post-birth and the farther one pre-birth:
  at full popularity an item released in the birth year (age 0, distance 13) scores
  below an item released the year before (age -1, distance 14), because only the latter
  receives the cultural component.
\<close>

theorem nostalgia_score_rises_across_birth:
  "\<bar>((1990::int) - 1990) - 13\<bar> \<le> \<bar>((1989::int) - 1990) - 13\<bar>
   \<and> nostalgia_score 1990 1990 100 100 True < nostalgia_score 1990 1989 100 100 True"
proof -
  have p: "popularity_score 100 100 True = 1" by (simp add: popularity_score_def)
  have sq: "exp (169 / 256 :: real) * exp (169 / 256) = exp (169 / 128)"
    by (simp add: mult_exp_exp)
  have "1 + (169 / 256 :: real) \<le> exp (169 / 256)" by (rule exp_ge_add_one_self)
  then have "(1 + 169 / 256) * (1 + 169 / 256) \<le> exp (169 / 256 :: real) * exp (169 / 256)"
    by (intro mult_mono) simp_all
  then have "(1000 / 399 :: real) \<le> exp (169 / 128)" unfolding sq by simp
  then have "inverse (exp (169 / 128 :: real)) \<le> inverse (1000 / 399)"
    by (subst inverse_le_iff_le) simp_all
  then have a0: "age_nostalgia 0 \<le> 399 / 1000"
    by (simp add: age_nostalgia_def PEAK_AGE_def WIDTH_def exp_minus)
  have f0: "final_score 1990 1990 100 100 True = age_nostalgia 0"
    by (simp add: final_score_unfold p cultural_nostalgia_def BASE_WEIGHT_def POP_BOOST_def)
  have "clamp01 (final_score 1990 1990 100 100 True) \<le> of_int 399 / 1000"
    using a0 age_nostalgia_pos [of 0] by (simp add: f0 clamp01_def)
  then have "round3 (clamp01 (final_score 1990 1990 100 100 True)) \<le> round3 (of_int 399 / 1000)"
    by (rule round3_mono)
  then have low: "nostalgia_score 1990 1990 100 100 True \<le> of_int 399 / 1000"
    by (simp only: round3_exact nostalgia_score_def)
  have f1: "final_score 1990 1989 100 100 True = age_nostalgia (- 1) + 4 / 10"
    by (simp add: final_score_unfold p cultural_nostalgia_def BASE_WEIGHT_def POP_BOOST_def
        CULTURAL_WEIGHT_def)
  have "age_nostalgia (- 1) < 3 / 5" by (rule age_nostalgia_prebirth_bound) simp
  then have "of_int 400 / 1000 \<le> clamp01 (final_score 1990 1989 100 100 True)"
    using age_nostalgia_pos [of "- 1"] by (simp add: f1 clamp01_def)
  then have "round3 (of_int 400 / 1000) \<le> round3 (clamp01 (final_score 1990 1989 100 100 True))"
    by (rule round3_mono)
  then have high: "of_int 400 / 1000 \<le> nostalgia_score 1990 1989 100 100 True"
    by (simp only: round3_exact nostalgia_score_def)
  from low high show ?thesis by simp
qed

section \<open>Properties of the genre normalization\<close>

lemma lookup_or_cases:
  "lookup_or table key dflt = dflt \<or> lookup_or table key dflt \<in> snd ` set table"
proof (cases "map_of table key")
  case None
  then show ?thesis by (simp add: lookup_or_def)
next
  case (Some v)
  then have "(key, v) \<in> set table" by (rule map_of_SomeD)
  then have "v \<in> snd ` set table" by force
  with Some show ?thesis by (simp add: lookup_or_def)
qed

lemma movie_map_range: "snd ` set MOVIE_GENRE_MAP \<subseteq> set ARMS"
  by (simp add: MOVIE_GENRE_MAP_def ARMS_def)

lemma song_map_range: "snd ` set SONG_GENRE_MAP \<subseteq> set ARMS"
  by (simp add: SONG_GENRE_MAP_def ARMS_def)

lemma normalize_genre_total: "normalize_genre raw_genre content_type \<in> set ARMS"
proof -
  have m: "lookup_or MOVIE_GENRE_MAP k ''other_movie'' \<in> set ARMS" for k
    using lookup_or_cases [of MOVIE_GENRE_MAP k "''other_movie''"] movie_map_range
    by (auto simp add: ARMS_def)
  have s: "lookup_or SONG_GENRE_MAP k ''other_song'' \<in> set ARMS" for k
    using lookup_or_cases [of SONG_GENRE_MAP k "''other_song''"] song_map_range
    by (auto simp add: ARMS_def)
  show ?thesis
    unfolding normalize_genre_def Let_def
    using m s by (auto simp add: ARMS_def)
qed

lemma get_arm_in_ARMS: "get_arm c \<in> set ARMS"
  by (simp add: get_arm_def normalize_genre_total)

text \<open>
  Every arm name except \<open>hiphop\<close> is a fixed point of the normalization, so the
  normalization is idempotent on movies, and on songs whenever the result is not \<open>hiphop\<close>.
\<close>

lemma movie_lookup_cases:
  "lookup_or MOVIE_GENRE_MAP k ''other_movie''
     \<in> {''drama'', ''comedy'', ''action'', ''romance'', ''thriller'', ''other_movie''}"
  using lookup_or_cases [of MOVIE_GENRE_MAP k "''other_movie''"]
  by (auto simp add: MOVIE_GENRE_MAP_def)

lemma song_lookup_cases:
  "lookup_or SONG_GENRE_MAP k ''other_song''
     \<in> {''pop'', ''rock'', ''hiphop'', ''rnb'', ''country'', ''other_song''}"
  using lookup_or_cases [of SONG_GENRE_MAP k "''other_song''"]
  by (auto simp add: SONG_GENRE_MAP_def)

lemma normalize_genre_movie_cases:
  "normalize_genre raw_genre ''movie''
     \<in> {''drama'', ''comedy'', ''action'', ''romance'', ''thriller'', ''other_movie''}"
  using movie_lookup_cases by (simp add: normalize_genre_def Let_def)

lemma normalize_genre_song_cases:
  assumes "content_type \<noteq> ''movie''"
  shows "normalize_genre raw_genre content_type
     \<in> {''pop'', ''rock'', ''hiphop'', ''rnb'', ''country'', ''other_song''}"
  using assms song_lookup_cases by (simp add: normalize_genre_def Let_def)

lemma normalize_genre_arm_movie:
  assumes "a \<in> {''drama'', ''comedy'', ''action'', ''romance'', ''thriller'', ''other_movie''}"
  shows "normalize_genre a ''movie'' = a"
  using assms
  by (elim insertE emptyE)
     (simp_all add: normalize_genre_def first_of_split_def to_lower_case_def to_lower_char_def
        trim_def is_space_def lookup_or_def MOVIE_GENRE_MAP_def)

lemma normalize_genre_arm_song:
  assumes "a \<in> {''pop'', ''rock'', ''rnb'', ''country'', ''other_song''}"
      and "content_type \<noteq> ''movie''"
  shows "normalize_genre a content_type = a"
  using assms(1)
  by (elim insertE emptyE)
     (simp_all add: assms(2) normalize_genre_def first_of_split_def to_lower_case_def
        to_lower_char_def trim_def is_space_def lookup_or_def SONG_GENRE_MAP_def)

lemma normalize_genre_idempotent_movie:
  "normalize_genre (normalize_genre raw_genre ''movie'') ''movie''
     = normalize_genre raw_genre ''movie''"
  using normalize_genre_movie_cases by (rule normalize_genre_arm_movie)

lemma normalize_genre_idempotent_song:
  assumes "content_type \<noteq> ''movie''"
      and "normalize_genre raw_genre content_type \<noteq> ''hiphop''"
  shows "normalize_genre (normalize_genre raw_genre content_type) content_type
     = normalize_genre raw_genre content_type"
proof -
  from normalize_genre_song_cases [OF assms(1), of raw_genre] assms(2)
  have "normalize_genre raw_genre content_type
          \<in> {''pop'', ''rock'', ''rnb'', ''country'', ''other_song''}"
    by simp
  then show ?thesis using assms(1) by (rule normalize_genre_arm_song)
qed

text \<open>
  C4, at the input where it fails: the song genre \<open>rap\<close> is normalized to the arm
  \<open>hiphop\<close>, and normalizing that arm again gives \<open>other_song\<close>, because the song map
  has no entry for the arm name itself.
\<close>

theorem normalize_genre_hiphop_not_fixed:
  "normalize_genre ''rap'' ''song'' = ''hiphop''
   \<and> normalize_genre (normalize_genre ''rap'' ''song'') ''song'' = ''other_song''"
  by (simp add: normalize_genre_def first_of_split_def to_lower_case_def to_lower_char_def
      trim_def is_space_def lookup_or_def SONG_GENRE_MAP_def)

section \<open>Properties of the candidate filter\<close>

text \<open>
  C5: when the list that survives the recency exclusion is not empty and every candidate
  in it has a nostalgia score below 0.3, the filter returns that whole list, which is
  not empty.
\<close>

theorem filter_candidates_fallback:
  assumes "remove_recent recent_ids candidates \<noteq> []"
      and "\<forall>c \<in> set (remove_recent recent_ids candidates). c_nostalgia_score c < 3 / 10"
  shows "filter_candidates recent_ids candidates = remove_recent recent_ids candidates
         \<and> filter_candidates recent_ids candidates \<noteq> []"
proof -
  have "filter (\<lambda>c. c_nostalgia_score c \<ge> MIN_NOSTALGIA_SCORE) (remove_recent recent_ids candidates) = []"
    using assms(2) by (auto simp add: filter_empty_conv MIN_NOSTALGIA_SCORE_def)
  then have "filter_candidates recent_ids candidates = remove_recent recent_ids candidates"
    by (simp add: filter_candidates_def Let_def)
  with assms(1) show ?thesis by simp
qed

theorem filter_candidates_fallback_witness:
  "remove_recent [''m1'']
     [\<lparr>c_type = ''movie'', c_id = ''m1'', c_genre = ''Drama|War'', c_year = 1995,
        c_nostalgia_score = 9 / 10, c_similarity_score = 1\<rparr>,
      \<lparr>c_type = ''movie'', c_id = ''m2'', c_genre = ''Comedy'', c_year = 2012,
        c_nostalgia_score = 2 / 10, c_similarity_score = 1 / 2\<rparr>,
      \<lparr>c_type = ''song'', c_id = ''s1'', c_genre = ''rap'', c_year = 2013,
        c_nostalgia_score = 1 / 10, c_similarity_score = 1 / 4\<rparr>] \<noteq> []
   \<and> list_all (\<lambda>c. c_nostalgia_score c < 3 / 10) (remove_recent [''m1'']
     [\<lparr>c_type = ''movie'', c_id = ''m1'', c_genre = ''Drama|War'', c_year = 1995,
        c_nostalgia_score = 9 / 10, c_similarity_score = 1\<rparr>,
      \<lparr>c_type = ''movie'', c_id = ''m2'', c_genre = ''Comedy'', c_year = 2012,
        c_nostalgia_score = 2 / 10, c_similarity_score = 1 / 2\<rparr>,
      \<lparr>c_type = ''song'', c_id = ''s1'', c_genre = ''rap'', c_year = 2013,
        c_nostalgia_score = 1 / 10, c_similarity_score = 1 / 4\<rparr>])
   \<and> filter_candidates [''m1'']
     [\<lparr>c_type = ''movie'', c_id = ''m1'', c_genre = ''Drama|War'', c_year = 1995,
        c_nostalgia_score = 9 / 10, c_similarity_score = 1\<rparr>,
      \<lparr>c_type = ''movie'', c_id = ''m2'', c_genre = ''Comedy'', c_year = 2012,
        c_nostalgia_score = 2 / 10, c_similarity_score = 1 / 2\<rparr>,
      \<lparr>c_type = ''song'', c_id = ''s1'', c_genre = ''rap'', c_year = 2013,
        c_nostalgia_score = 1 / 10, c_similarity_score = 1 / 4\<rparr>]
     = [\<lparr>c_type = ''movie'', c_id = ''m2'', c_genre = ''Comedy'', c_year = 2012,
        c_nostalgia_score = 2 / 10, c_similarity_score = 1 / 2\<rparr>,
      \<lparr>c_type = ''song'', c_id = ''s1'', c_genre = ''rap'', c_year = 2013,
        c_nostalgia_score = 1 / 10, c_similarity_score = 1 / 4\<rparr>]"
  using filter_candidates_fallback [of "[''m1'']"
     "[\<lparr>c_type = ''movie'', c_id = ''m1'', c_genre = ''Drama|War'', c_year = 1995,
        c_nostalgia_score = 9 / 10, c_similarity_score = 1\<rparr>,
      \<lparr>c_type = ''movie'', c_id = ''m2'', c_genre = ''Comedy'', c_year = 2012,
        c_nostalgia_score = 2 / 10, c_similarity_score = 1 / 2\<rparr>,
      \<lparr>c_type = ''song'', c_id = ''s1'', c_genre = ''rap'', c_year = 2013,
        c_nostalgia_score = 1 / 10, c_similarity_score = 1 / 4\<rparr>]"]
  by (simp add: remove_recent_def list_all_iff)

section \<open>Properties of the hierarchical selection\<close>

text \<open>
  C6: for a user whose per-user model (the stored one, or the fresh one created at the
  first request) has fewer than 10 updates, the hierarchical selection returns the index
  and score of the selection of the global model alone (or raises as it does), whatever
  the per-user model holds, for every context, candidate list and random state.
\<close>

theorem hierarchical_select_cold_start:
  assumes "n_updates (fst (get_or_create_user_model hb user_id)) < 10"
  shows "selection (hierarchical_select predict_expectations random_integer hb user_id
                      context candidates g)
         = selection (linucb_select predict_expectations random_integer (global_model hb)
                        context candidates g)"
proof (cases "linucb_select predict_expectations random_integer (global_model hb)
                context candidates g")
  case (Inl e)
  then show ?thesis by (simp add: hierarchical_select_def selection_def)
next
  case (Inr res)
  obtain global_sel g1 where res: "res = (global_sel, g1)" by (cases res)
  obtain user_model hb' where uc: "get_or_create_user_model hb user_id = (user_model, hb')"
    by (cases "get_or_create_user_model hb user_id")
  with assms have "n_updates user_model < MIN_USER_UPDATES"
    by (simp add: MIN_USER_UPDATES_def)
  with Inr res uc show ?thesis
    by (simp add: hierarchical_select_def selection_def)
qed

theorem hierarchical_select_cold_start_witness:
  "n_updates (fst (get_or_create_user_model
       \<lparr>global_model = init_model\<lparr>is_fitted := True, n_updates := 40\<rparr>,
        user_models = [''u1'' \<mapsto> init_model\<lparr>is_fitted := True, n_updates := 9\<rparr>]\<rparr> ''u1'')) < 10
   \<and> selection (hierarchical_select
         (\<lambda>arms x arm. if arm = ''hiphop'' then 9 / 10 else 1 / 10) (\<lambda>g n. (g mod n, Suc g))
         \<lparr>global_model = init_model\<lparr>is_fitted := True, n_updates := 40\<rparr>,
          user_models = [''u1'' \<mapsto> init_model\<lparr>is_fitted := True, n_updates := 9\<rparr>]\<rparr>
         ''u1'' [1 / 2, 0, 0, 0, 0, 1]
         [\<lparr>c_type = ''movie'', c_id = ''m2'', c_genre = ''Comedy'', c_year = 2012,
            c_nostalgia_score = 2 / 10, c_similarity_score = 1 / 2\<rparr>,
          \<lparr>c_type = ''song'', c_id = ''s1'', c_genre = ''rap'', c_year = 2013,
            c_nostalgia_score = 1 / 10, c_similarity_score = 1 / 4\<rparr>] (0::nat))
       = Inr (1, 9 / 10)"
  using hierarchical_select_cold_start [of
      "\<lparr>global_model = init_model\<lparr>is_fitted := True, n_updates := 40\<rparr>,
        user_models = [''u1'' \<mapsto> init_model\<lparr>is_fitted := True, n_updates := 9\<rparr>]\<rparr>" "''u1''"
      "\<lambda>arms x arm. if arm = ''hiphop'' then 9 / 10 else 1 / 10" "\<lambda>g n. (g mod n, Suc g)"
      "[1 / 2, 0, 0, 0, 0, 1]"
      "[\<lparr>c_type = ''movie'', c_id = ''m2'', c_genre = ''Comedy'', c_year = 2012,
            c_nostalgia_score = 2 / 10, c_similarity_score = 1 / 2\<rparr>,
          \<lparr>c_type = ''song'', c_id = ''s1'', c_genre = ''rap'', c_year = 2013,
            c_nostalgia_score = 1 / 10, c_similarity_score = 1 / 4\<rparr>]" "0::nat"]
  by (simp add: get_or_create_user_model_def init_model_def linucb_select_def selection_def
     get_arm_def normalize_genre_def first_of_split_def to_lower_case_def to_lower_char_def
      trim_def is_space_def lookup_or_def SONG_GENRE_MAP_def MOVIE_GENRE_MAP_def ARMS_def)

section \<open>Properties of the LinUCB arm\<close>

subsection \<open>Accumulation\<close>

lemma map2_assoc:
  assumes "\<And>a b c. f (f a b) c = f a (f b c)"
  shows "map2 f (map2 f xs ys) zs = map2 f xs (map2 f ys zs)"
proof (induction xs arbitrary: ys zs)
  case Nil
  then show ?case by simp
next
  case (Cons x xs)
  then show ?case by (cases ys; cases zs) (simp_all add: assms)
qed

lemma map2_commute:
  assumes "\<And>a b. f a b = f b a"
  shows "map2 f xs ys = map2 f ys xs"
proof (induction xs arbitrary: ys)
  case Nil
  then show ?case by simp
next
  case (Cons x xs)
  then show ?case by (cases ys) (simp_all add: assms)
qed

lemma vec_add_assoc: "vec_add (vec_add u v) w = vec_add u (vec_add v w)"
  unfolding vec_add_def by (rule map2_assoc) simp

lemma vec_add_commute: "vec_add u v = vec_add v u"
  unfolding vec_add_def by (rule map2_commute) simp

lemma mat_add_assoc: "mat_add (mat_add A B) C = mat_add A (mat_add B C)"
  unfolding mat_add_def by (rule map2_assoc) (rule vec_add_assoc)

lemma mat_add_commute: "mat_add A B = mat_add B A"
  unfolding mat_add_def by (rule map2_commute) (rule vec_add_commute)

text \<open>
  C8: two updates in sequence leave the same \<open>A\<close> and \<open>b\<close> as one combined accumulation
  \<open>A + (x\<^sub>1 x\<^sub>1\<^sup>T + x\<^sub>2 x\<^sub>2\<^sup>T)\<close> and \<open>b + (r\<^sub>1 x\<^sub>1 + r\<^sub>2 x\<^sub>2)\<close>, for every state and
  every two pairs of context and reward, so the order of the two updates does not matter.
\<close>

theorem arm_update_accumulates:
  "arm_update x2 r2 (arm_update x1 r1 s)
     = \<lparr>arm_A = mat_add (arm_A s) (mat_add (outer x1 x1) (outer x2 x2)),
        arm_b = vec_add (arm_b s) (vec_add (scale r1 x1) (scale r2 x2))\<rparr>
   \<and> arm_update x2 r2 (arm_update x1 r1 s) = arm_update x1 r1 (arm_update x2 r2 s)"
proof -
  have "mat_add (arm_A s) (mat_add (outer x1 x1) (outer x2 x2))
        = mat_add (arm_A s) (mat_add (outer x2 x2) (outer x1 x1))"
    by (simp add: mat_add_commute [of "outer x1 x1"])
  moreover have "vec_add (arm_b s) (vec_add (scale r1 x1) (scale r2 x2))
        = vec_add (arm_b s) (vec_add (scale r2 x2) (scale r1 x1))"
    by (simp add: vec_add_commute [of "scale r1 x1"])
  ultimately show ?thesis
    by (simp add: arm_update_def mat_add_assoc vec_add_assoc)
qed

text \<open>
  The same at the level of the model: on a fitted model two updates for one arm
  accumulate the binarized rewards; a reward that is already 0 or 1 is kept.
\<close>

lemma binarize_binary: "r \<in> {0, 1} \<Longrightarrow> binarize r = r"
  by (auto simp add: binarize_def)

lemma linucb_update_accumulates:
  assumes "is_fitted m"
  shows "mab (linucb_update c2 cand r2 (linucb_update c1 cand r1 m)) (get_arm cand)
     = \<lparr>arm_A = mat_add (arm_A (mab m (get_arm cand)))
                 (mat_add (outer (ensure_shape CONTEXT_DIM c1) (ensure_shape CONTEXT_DIM c1))
                          (outer (ensure_shape CONTEXT_DIM c2) (ensure_shape CONTEXT_DIM c2))),
        arm_b = vec_add (arm_b (mab m (get_arm cand)))
                 (vec_add (scale (binarize r1) (ensure_shape CONTEXT_DIM c1))
                          (scale (binarize r2) (ensure_shape CONTEXT_DIM c2)))\<rparr>"
  using assms
  by (simp add: linucb_update_def Let_def mab_partial_fit_def arm_update_def
      mat_add_assoc vec_add_assoc)

subsection \<open>Entries\<close>

lemma dot_Nil [simp]: "dot [] v = 0" "dot u [] = 0"
  by (simp_all add: dot_def)

lemma dot_Cons [simp]: "dot (a # u) (c # v) = a * c + dot u v"
  by (simp add: dot_def)

lemma dot_commute: "dot u v = dot v u"
proof (induction u arbitrary: v)
  case Nil
  then show ?case by simp
next
  case (Cons a u)
  then show ?case by (cases v) simp_all
qed

lemma dot_scale_left: "dot (scale r u) v = r * dot u v"
proof (induction u arbitrary: v)
  case Nil
  then show ?case by (simp add: scale_def)
next
  case (Cons a u)
  then show ?case by (cases v) (simp_all add: scale_def algebra_simps)
qed

lemma dot_scale_right: "dot u (scale r v) = r * dot u v"
  by (simp add: dot_commute [of u] dot_scale_left)

lemma dot_add_left:
  assumes "length u = length w"
  shows "dot (vec_add u w) v = dot u v + dot w v"
  using assms
proof (induction u w arbitrary: v rule: list_induct2)
  case Nil
  then show ?case by (simp add: vec_add_def)
next
  case (Cons a u c w)
  from Cons.IH [of "tl v"] show ?case
    by (cases v) (simp_all add: vec_add_def algebra_simps)
qed

lemma dot_add_right:
  assumes "length u = length w"
  shows "dot v (vec_add u w) = dot v u + dot v w"
  using dot_add_left [OF assms, of v] by (simp add: dot_commute)

lemma dot_self_nonneg: "0 \<le> dot v v"
  by (induction v) simp_all

lemma dot_self_zero: "dot v v = 0 \<longleftrightarrow> v = zero_vec (length v)"
proof (induction v)
  case Nil
  then show ?case by (simp add: zero_vec_def)
next
  case (Cons a v)
  have "a * a + dot v v = 0 \<longleftrightarrow> a = 0 \<and> dot v v = 0"
    using dot_self_nonneg [of v] by (auto simp add: add_nonneg_eq_0_iff)
  with Cons show ?case by (simp add: zero_vec_def)
qed

lemma dot_zero_right: "dot v (zero_vec n) = 0"
proof (induction v arbitrary: n)
  case Nil
  then show ?case by simp
next
  case (Cons a v)
  then show ?case by (cases n) (simp_all add: zero_vec_def)
qed

lemma dot_sum:
  assumes "length u = n" and "length v = n"
  shows "dot u v = (\<Sum>i<n. u ! i * v ! i)"
proof -
  have "dot u v = (\<Sum>i = 0..<length (map2 (*) u v). map2 (*) u v ! i)"
    unfolding dot_def by (rule sum_list_sum_nth)
  also have "\<dots> = (\<Sum>i = 0..<n. u ! i * v ! i)"
    using assms by (intro sum.cong) simp_all
  finally show ?thesis by (simp add: atLeast0LessThan)
qed

lemma length_vec_add [simp]: "length (vec_add u v) = min (length u) (length v)"
  by (simp add: vec_add_def)

lemma length_scale [simp]: "length (scale r v) = length v"
  by (simp add: scale_def)

lemma length_mat_vec [simp]: "length (mat_vec A v) = length A"
  by (simp add: mat_vec_def)

lemma length_zero_vec [simp]: "length (zero_vec n) = n"
  by (simp add: zero_vec_def)

lemma length_ensure_shape [simp]: "length (ensure_shape d context) = d"
  by (simp add: ensure_shape_def)

lemma vec_add_nth:
  assumes "i < length u" and "i < length v"
  shows "vec_add u v ! i = u ! i + v ! i"
  using assms by (simp add: vec_add_def)

lemma scale_nth: "i < length v \<Longrightarrow> scale r v ! i = r * v ! i"
  by (simp add: scale_def)

lemma mat_vec_nth: "i < length A \<Longrightarrow> mat_vec A v ! i = dot (A ! i) v"
  by (simp add: mat_vec_def)

lemma is_mat_row: "is_mat n A \<Longrightarrow> i < n \<Longrightarrow> length (A ! i) = n"
  by (simp add: is_mat_def list_all_length)

lemma is_mat_length: "is_mat n A \<Longrightarrow> length A = n"
  by (simp add: is_mat_def)

lemma is_mat_identity: "is_mat n (identity n)"
  by (simp add: is_mat_def identity_def list_all_iff)

lemma is_mat_outer: "length x = n \<Longrightarrow> is_mat n (outer x x)"
  by (simp add: is_mat_def outer_def list_all_iff)

lemma is_mat_add:
  assumes "is_mat n A" and "is_mat n B"
  shows "is_mat n (mat_add A B)"
  using assms
  by (auto simp add: is_mat_def mat_add_def list_all_length)

lemma mat_add_nth:
  assumes "i < length A" and "i < length B"
  shows "mat_add A B ! i = vec_add (A ! i) (B ! i)"
  using assms by (simp add: mat_add_def)

lemma outer_nth: "i < length x \<Longrightarrow> outer x y ! i = scale (x ! i) y"
  by (simp add: outer_def)

lemma identity_nth:
  assumes "i < n" and "j < n"
  shows "identity n ! i ! j = (if i = j then 1 else 0)"
  using assms by (simp add: identity_def)

lemma symmetric_iff: "symmetric n A \<longleftrightarrow> (\<forall>i<n. \<forall>j<n. A ! i ! j = A ! j ! i)"
  by (auto simp add: symmetric_def list_all_iff)

subsection \<open>Matrix times vector\<close>

lemma mat_vec_mat_add:
  assumes "is_mat n A" and "is_mat n B"
  shows "mat_vec (mat_add A B) v = vec_add (mat_vec A v) (mat_vec B v)"
proof (rule nth_equalityI)
  show "length (mat_vec (mat_add A B) v) = length (vec_add (mat_vec A v) (mat_vec B v))"
    using assms by (simp add: is_mat_def mat_add_def)
next
  fix i assume "i < length (mat_vec (mat_add A B) v)"
  then have i: "i < n" using assms by (simp add: is_mat_def mat_add_def)
  have len: "length A = n" "length B = n"
    using assms by (simp_all add: is_mat_length)
  from i have "length (A ! i) = length (B ! i)"
    using assms by (simp add: is_mat_row)
  then have "dot (vec_add (A ! i) (B ! i)) v = dot (A ! i) v + dot (B ! i) v"
    by (rule dot_add_left)
  with i len show "mat_vec (mat_add A B) v ! i = vec_add (mat_vec A v) (mat_vec B v) ! i"
    by (simp add: mat_vec_nth mat_add_nth vec_add_nth mat_add_def)
qed

lemma mat_vec_outer: "mat_vec (outer x y) v = scale (dot y v) x"
  by (simp add: mat_vec_def outer_def scale_def dot_scale_left [unfolded scale_def])

lemma mat_vec_vec_add:
  assumes "length v = length w"
  shows "mat_vec A (vec_add v w) = vec_add (mat_vec A v) (mat_vec A w)"
proof (rule nth_equalityI)
  show "length (mat_vec A (vec_add v w)) = length (vec_add (mat_vec A v) (mat_vec A w))"
    by simp
next
  fix i assume "i < length (mat_vec A (vec_add v w))"
  then have i: "i < length A" by simp
  then show "mat_vec A (vec_add v w) ! i = vec_add (mat_vec A v) (mat_vec A w) ! i"
    by (simp add: mat_vec_nth vec_add_nth dot_add_right [OF assms])
qed

lemma mat_vec_scale: "mat_vec A (scale r v) = scale r (mat_vec A v)"
  by (simp add: mat_vec_def scale_def dot_scale_right [unfolded scale_def])

lemma mat_vec_zero: "mat_vec A (zero_vec n) = zero_vec (length A)"
proof -
  have "mat_vec A (zero_vec n) = map (\<lambda>row. 0) A"
    by (simp add: mat_vec_def dot_zero_right)
  then show ?thesis by (simp add: zero_vec_def map_replicate_const)
qed

lemma mat_vec_identity:
  assumes "length v = n"
  shows "mat_vec (identity n) v = v"
proof (rule nth_equalityI)
  show "length (mat_vec (identity n) v) = length v"
    using assms by (simp add: identity_def)
next
  fix i assume "i < length (mat_vec (identity n) v)"
  then have i: "i < n" by (simp add: identity_def)
  have len: "length (identity n ! i) = n"
    using i is_mat_identity by (rule is_mat_row [rotated])
  have "dot (identity n ! i) v = (\<Sum>j<n. identity n ! i ! j * v ! j)"
    using len assms by (rule dot_sum)
  also have "\<dots> = (\<Sum>j<n. if i = j then v ! j else 0)"
    using i by (intro sum.cong) (simp_all add: identity_nth)
  also have "\<dots> = v ! i" using i by simp
  finally show "mat_vec (identity n) v ! i = v ! i"
    using i by (simp add: mat_vec_nth identity_def)
qed

lemma symmetric_dot_mat_vec:
  assumes "is_mat n A" and "symmetric n A" and "length u = n" and "length v = n"
  shows "dot u (mat_vec A v) = dot (mat_vec A u) v"
proof -
  have row: "dot (A ! i) w = (\<Sum>j<n. A ! i ! j * w ! j)" if "i < n" "length w = n" for i w
    using is_mat_row [OF assms(1) that(1)] that(2) by (rule dot_sum)
  have "dot u (mat_vec A v) = (\<Sum>i<n. u ! i * mat_vec A v ! i)"
    using assms by (intro dot_sum) (simp_all add: is_mat_length)
  also have "\<dots> = (\<Sum>i<n. \<Sum>j<n. u ! i * (A ! i ! j * v ! j))"
    using assms by (intro sum.cong) (simp_all add: mat_vec_nth is_mat_length row sum_distrib_left)
  also have "\<dots> = (\<Sum>j<n. \<Sum>i<n. u ! i * (A ! i ! j * v ! j))"
    by (rule sum.swap)
  also have "\<dots> = (\<Sum>j<n. \<Sum>i<n. (A ! j ! i * u ! i) * v ! j)"
    using assms(2) by (intro sum.cong) (simp_all add: symmetric_iff algebra_simps)
  also have "\<dots> = (\<Sum>j<n. mat_vec A u ! j * v ! j)"
    using assms by (intro sum.cong) (simp_all add: mat_vec_nth is_mat_length row sum_distrib_right)
  also have "\<dots> = dot (mat_vec A u) v"
    using assms by (intro dot_sum [symmetric]) (simp_all add: is_mat_length)
  finally show ?thesis .
qed

subsection \<open>The rank-one update\<close>

lemma mat_vec_update:
  assumes "is_mat n A" and "length x = n"
  shows "mat_vec (mat_add A (outer x x)) v = vec_add (mat_vec A v) (scale (dot x v) x)"
  using mat_vec_mat_add [OF assms(1) is_mat_outer [OF assms(2)]]
  by (simp add: mat_vec_outer)

lemma quad_update:
  assumes "is_mat n A" and "length x = n" and "length v = n"
  shows "dot v (mat_vec (mat_add A (outer x x)) v) = dot v (mat_vec A v) + (dot x v)\<^sup>2"
proof -
  have "length (mat_vec A v) = length (scale (dot x v) x)"
    using assms by (simp add: is_mat_length)
  then have "dot v (vec_add (mat_vec A v) (scale (dot x v) x))
      = dot v (mat_vec A v) + dot v (scale (dot x v) x)"
    by (rule dot_add_right)
  then show ?thesis
    by (simp add: mat_vec_update [OF assms(1,2)] dot_scale_right dot_commute [of v x] power2_eq_square)
qed

lemma symmetric_identity: "symmetric n (identity n)"
  by (auto simp add: symmetric_iff identity_nth)

lemma symmetric_update:
  assumes "is_mat n A" and "symmetric n A" and "length x = n"
  shows "symmetric n (mat_add A (outer x x))"
proof -
  have "mat_add A (outer x x) ! i ! j = A ! i ! j + x ! i * x ! j" if "i < n" "j < n" for i j
    using that assms is_mat_row [OF assms(1) that(1)]
    by (simp add: mat_add_nth is_mat_length outer_def vec_add_nth scale_nth)
  with assms(2) show ?thesis
    by (simp add: symmetric_iff algebra_simps)
qed

lemma vec_add_scale_scale:
  "vec_add (vec_add y (scale a x)) (scale c x) = vec_add y (scale (a + c) x)"
proof (rule nth_equalityI)
  show "length (vec_add (vec_add y (scale a x)) (scale c x)) = length (vec_add y (scale (a + c) x))"
    by simp
next
  fix i assume "i < length (vec_add (vec_add y (scale a x)) (scale c x))"
  then have "i < length y" "i < length x" by simp_all
  then show "vec_add (vec_add y (scale a x)) (scale c x) ! i = vec_add y (scale (a + c) x) ! i"
    by (simp add: vec_add_nth scale_nth algebra_simps)
qed

lemma vec_add_scale_zero:
  assumes "length x = length y"
  shows "vec_add y (scale 0 x) = y"
proof (rule nth_equalityI)
  show "length (vec_add y (scale 0 x)) = length y" using assms by simp
next
  fix i assume "i < length (vec_add y (scale 0 x))"
  then have "i < length y" "i < length x" by simp_all
  then show "vec_add y (scale 0 x) ! i = y ! i"
    by (simp add: vec_add_nth scale_nth)
qed

subsection \<open>Positive definiteness\<close>

lemma pos_def_identity:
  assumes "length v = n" and "v \<noteq> zero_vec n"
  shows "0 < dot v (mat_vec (identity n) v)"
proof -
  have "dot v v \<noteq> 0" using assms dot_self_zero [of v] by simp
  with dot_self_nonneg [of v] have "0 < dot v v" by simp
  with assms(1) show ?thesis by (simp add: mat_vec_identity)
qed

lemma pos_def_update:
  assumes "is_mat n A" and "length x = n" and "length v = n"
      and "0 < dot v (mat_vec A v)"
  shows "0 < dot v (mat_vec (mat_add A (outer x x)) v)"
proof -
  have "0 \<le> (dot x v)\<^sup>2" by simp
  with assms(4) show ?thesis
    unfolding quad_update [OF assms(1-3)] by (rule add_pos_nonneg)
qed

lemma pos_def_nonneg:
  assumes "is_mat n A"
      and pd: "\<And>v. length v = n \<Longrightarrow> v \<noteq> zero_vec n \<Longrightarrow> 0 < dot v (mat_vec A v)"
      and "length v = n"
  shows "0 \<le> dot v (mat_vec A v)"
proof (cases "v = zero_vec n")
  case True
  then show ?thesis by (simp add: mat_vec_zero dot_zero_right)
next
  case False
  with pd [OF assms(3)] show ?thesis by simp
qed

subsection \<open>Solvability of the linear system\<close>

lemma solvable_update:
  assumes m: "is_mat n A" and s: "symmetric n A"
      and pd: "\<And>v. length v = n \<Longrightarrow> v \<noteq> zero_vec n \<Longrightarrow> 0 < dot v (mat_vec A v)"
      and sol: "\<And>y. length y = n \<Longrightarrow> \<exists>w. length w = n \<and> mat_vec A w = y"
      and x: "length x = n" and y: "length y = n"
  shows "\<exists>w. length w = n \<and> mat_vec (mat_add A (outer x x)) w = y"
proof -
  from sol [OF x] obtain u where u: "length u = n" "mat_vec A u = x" by blast
  from sol [OF y] obtain v where v: "length v = n" "mat_vec A v = y" by blast
  define \<sigma> where "\<sigma> = dot x u"
  have "0 \<le> dot u (mat_vec A u)" using m pd u(1) by (rule pos_def_nonneg)
  then have sig: "0 \<le> \<sigma>" by (simp add: \<sigma>_def u(2) dot_commute)
  define c where "c = dot x v / (1 + \<sigma>)"
  define w where "w = vec_add v (scale (- c) u)"
  have lw: "length w = n" by (simp add: w_def u v)
  have "mat_vec A w = vec_add y (scale (- c) x)"
    by (simp add: w_def mat_vec_vec_add mat_vec_scale u v)
  moreover have "dot x w = dot x v + (- c) * \<sigma>"
    by (simp add: w_def dot_add_right dot_scale_right u v \<sigma>_def)
  ultimately have "mat_vec (mat_add A (outer x x)) w
      = vec_add (vec_add y (scale (- c) x)) (scale (dot x v + (- c) * \<sigma>) x)"
    by (simp add: mat_vec_update [OF m x])
  also have "\<dots> = vec_add y (scale (- c + (dot x v + (- c) * \<sigma>)) x)"
    by (rule vec_add_scale_scale)
  also have "- c + (dot x v + (- c) * \<sigma>) = 0"
    using sig by (simp add: c_def field_simps)
  finally have "mat_vec (mat_add A (outer x x)) w = y"
    by (simp add: vec_add_scale_zero x y)
  with lw show ?thesis by blast
qed

subsection \<open>The invariant of an arm\<close>

lemma reachable_arm_invariant:
  assumes "reachable_arm s"
  shows "is_mat CONTEXT_DIM (arm_A s) \<and> length (arm_b s) = CONTEXT_DIM
       \<and> symmetric CONTEXT_DIM (arm_A s)
       \<and> (\<forall>v. length v = CONTEXT_DIM \<longrightarrow> v \<noteq> zero_vec CONTEXT_DIM
              \<longrightarrow> 0 < dot v (mat_vec (arm_A s) v))
       \<and> (\<forall>y. length y = CONTEXT_DIM
              \<longrightarrow> (\<exists>w. length w = CONTEXT_DIM \<and> mat_vec (arm_A s) w = y))"
  using assms
proof (induction rule: reachable_arm.induct)
  case reachable_init
  have "0 < dot v (mat_vec (identity CONTEXT_DIM) v)"
    if "length v = CONTEXT_DIM" "v \<noteq> zero_vec CONTEXT_DIM" for v
    using that by (rule pos_def_identity)
  moreover have "\<exists>w. length w = CONTEXT_DIM \<and> mat_vec (identity CONTEXT_DIM) w = y"
    if "length y = CONTEXT_DIM" for y
    using that mat_vec_identity [OF that] by blast
  ultimately show ?case
    by (simp add: init_arm_def is_mat_identity symmetric_identity)
next
  case (reachable_update s ctx r)
  let ?x = "ensure_shape CONTEXT_DIM ctx"
  let ?A = "arm_A s"
  from reachable_update.IH
  have m: "is_mat CONTEXT_DIM ?A" and b: "length (arm_b s) = CONTEXT_DIM"
    and sy: "symmetric CONTEXT_DIM ?A"
    and pd: "\<And>v. length v = CONTEXT_DIM \<Longrightarrow> v \<noteq> zero_vec CONTEXT_DIM
               \<Longrightarrow> 0 < dot v (mat_vec ?A v)"
    and sol: "\<And>y. length y = CONTEXT_DIM
               \<Longrightarrow> \<exists>w. length w = CONTEXT_DIM \<and> mat_vec ?A w = y"
    by blast+
  have x: "length ?x = CONTEXT_DIM" by simp
  have "is_mat CONTEXT_DIM (mat_add ?A (outer ?x ?x))"
    using m is_mat_outer [OF x] by (rule is_mat_add)
  moreover have "length (vec_add (arm_b s) (scale r ?x)) = CONTEXT_DIM"
    using b by simp
  moreover have "symmetric CONTEXT_DIM (mat_add ?A (outer ?x ?x))"
    using m sy x by (rule symmetric_update)
  moreover have "0 < dot v (mat_vec (mat_add ?A (outer ?x ?x)) v)"
    if "length v = CONTEXT_DIM" "v \<noteq> zero_vec CONTEXT_DIM" for v
    using m x that(1) pd [OF that] by (rule pos_def_update)
  moreover have "\<exists>w. length w = CONTEXT_DIM \<and> mat_vec (mat_add ?A (outer ?x ?x)) w = y"
    if "length y = CONTEXT_DIM" for y
    using m sy pd sol x that by (rule solvable_update)
  ultimately show ?case
    by (simp add: arm_update_def)
qed

subsection \<open>The inverse matrix\<close>

lemma sum_list_upt: "sum_list (map f [0..<n]) = (\<Sum>k<n. f k)"
  by (simp add: interv_sum_list_conv_sum_set_nat atLeast0LessThan)

lemma mat_mul_identityI:
  assumes "\<And>i j. i < n \<Longrightarrow> j < n \<Longrightarrow> (\<Sum>k<n. A ! i ! k * B ! k ! j) = (if i = j then 1 else 0)"
  shows "mat_mul n A B = identity n"
  unfolding mat_mul_def identity_def sum_list_upt
  using assms by (intro map_cong refl) simp

lemma dot_unit:
  assumes "length v = n" and "j < n"
  shows "dot (identity n ! j) v = v ! j"
proof -
  have "mat_vec (identity n) v ! j = dot (identity n ! j) v"
    using assms(2) by (simp add: mat_vec_nth identity_def)
  then show ?thesis using assms(1) by (simp add: mat_vec_identity)
qed

lemma inverse_exists:
  assumes m: "is_mat n A" and s: "symmetric n A"
      and sol: "\<And>y. length y = n \<Longrightarrow> \<exists>w. length w = n \<and> mat_vec A w = y"
  shows "\<exists>B. is_inverse n A B"
proof -
  have "\<forall>j<n. \<exists>w. length w = n \<and> mat_vec A w = identity n ! j"
    using sol is_mat_row [OF is_mat_identity] by blast
  then obtain c where c: "\<And>j. j < n \<Longrightarrow> length (c j) = n \<and> mat_vec A (c j) = identity n ! j"
    by metis
  define B where "B = map c [0..<n]"
  have Bk: "B ! k = c k" if "k < n" for k using that by (simp add: B_def)
  have mB: "is_mat n B"
    using c by (simp add: is_mat_def B_def list_all_iff)
  have row: "dot (A ! i) w = (\<Sum>k<n. A ! i ! k * w ! k)" if "i < n" "length w = n" for i w
    using is_mat_row [OF m that(1)] that(2) by (rule dot_sum)
  have col: "dot (A ! i) (c j) = (if i = j then 1 else 0)" if "i < n" "j < n" for i j
  proof -
    have "dot (A ! i) (c j) = mat_vec A (c j) ! i"
      using that(1) m by (simp add: mat_vec_nth is_mat_length)
    also have "\<dots> = identity n ! j ! i" using c [OF that(2)] by simp
    finally show ?thesis using that by (auto simp add: identity_nth)
  qed
  have symB: "c k ! j = c j ! k" if "k < n" "j < n" for k j
  proof -
    have "c k ! j = dot (c k) (identity n ! j)"
      using c [OF that(1)] that(2) by (simp add: dot_unit dot_commute [of "c k"])
    also have "\<dots> = dot (c k) (mat_vec A (c j))" using c [OF that(2)] by simp
    also have "\<dots> = dot (mat_vec A (c k)) (c j)"
      using m s c [OF that(1)] c [OF that(2)] by (intro symmetric_dot_mat_vec) simp_all
    also have "\<dots> = dot (identity n ! k) (c j)" using c [OF that(1)] by simp
    also have "\<dots> = c j ! k" using c [OF that(2)] that(1) by (simp add: dot_unit)
    finally show ?thesis .
  qed
  have "mat_mul n A B = identity n"
  proof (rule mat_mul_identityI)
    fix i j assume ij: "i < n" "j < n"
    have "(\<Sum>k<n. A ! i ! k * B ! k ! j) = (\<Sum>k<n. A ! i ! k * c j ! k)"
      using ij by (intro sum.cong) (simp_all add: Bk symB)
    also have "\<dots> = dot (A ! i) (c j)" using ij c [OF ij(2)] by (simp add: row)
    finally show "(\<Sum>k<n. A ! i ! k * B ! k ! j) = (if i = j then 1 else 0)"
      using ij by (simp add: col)
  qed
  moreover have "mat_mul n B A = identity n"
  proof (rule mat_mul_identityI)
    fix i j assume ij: "i < n" "j < n"
    have "(\<Sum>k<n. B ! i ! k * A ! k ! j) = (\<Sum>k<n. A ! j ! k * c i ! k)"
      using ij s by (intro sum.cong) (simp_all add: Bk symmetric_iff)
    also have "\<dots> = dot (A ! j) (c i)" using ij c [OF ij(1)] by (simp add: row)
    finally show "(\<Sum>k<n. B ! i ! k * A ! k ! j) = (if i = j then 1 else 0)"
      using ij by (auto simp add: col)
  qed
  ultimately show ?thesis using mB by (auto simp add: is_inverse_def)
qed

subsection \<open>Uniqueness of the weights\<close>

lemma vec_sub_self: "vec_add a (scale (- 1) a) = zero_vec (length a)"
  by (rule nth_equalityI) (simp_all add: vec_add_nth scale_nth zero_vec_def)

lemma pos_def_injective:
  assumes m: "is_mat n A"
      and pd: "\<And>v. length v = n \<Longrightarrow> v \<noteq> zero_vec n \<Longrightarrow> 0 < dot v (mat_vec A v)"
      and v: "length v = n" and w: "length w = n"
      and eq: "mat_vec A v = mat_vec A w"
  shows "v = w"
proof -
  define z where "z = vec_add v (scale (- 1) w)"
  have lz: "length z = n" by (simp add: z_def v w)
  have "mat_vec A z = vec_add (mat_vec A w) (scale (- 1) (mat_vec A w))"
    by (simp add: z_def mat_vec_vec_add mat_vec_scale v w eq)
  then have "mat_vec A z = zero_vec n"
    using m by (simp add: vec_sub_self is_mat_length)
  then have "dot z (mat_vec A z) = 0" by (simp add: dot_zero_right)
  with pd [OF lz] have z0: "z = zero_vec n" by fastforce
  show ?thesis
  proof (rule nth_equalityI)
    show "length v = length w" by (simp add: v w)
  next
    fix i assume i: "i < length v"
    then have "z ! i = v ! i + (- 1) * w ! i"
      by (simp add: z_def vec_add_nth scale_nth v w)
    moreover have "z ! i = 0" using i v by (simp add: z0 zero_vec_def)
    ultimately show "v ! i = w ! i" by simp
  qed
qed

lemma ensure_shape_id: "length x = d \<Longrightarrow> ensure_shape d x = x"
  by (simp add: ensure_shape_def)

lemma is_theta_unique:
  assumes "reachable_arm s" and "is_theta s \<theta>1" and "is_theta s \<theta>2"
  shows "\<theta>1 = \<theta>2"
proof -
  from reachable_arm_invariant [OF assms(1)]
  have m: "is_mat CONTEXT_DIM (arm_A s)" and b: "length (arm_b s) = CONTEXT_DIM"
    and pd: "\<And>v. length v = CONTEXT_DIM \<Longrightarrow> v \<noteq> zero_vec CONTEXT_DIM
               \<Longrightarrow> 0 < dot v (mat_vec (arm_A s) v)"
    by blast+
  from assms(2,3) b have l1: "length \<theta>1 = CONTEXT_DIM" and l2: "length \<theta>2 = CONTEXT_DIM"
    and eq: "mat_vec (arm_A s) \<theta>1 = mat_vec (arm_A s) \<theta>2"
    by (simp_all add: is_theta_def is_vec_def)
  from m pd l1 l2 eq show ?thesis by (rule pos_def_injective)
qed

lemma update_prediction:
  assumes r: "reachable_arm s" and t: "is_theta s \<theta>"
      and t': "is_theta (arm_update x 1 s) \<theta>'" and x: "length x = CONTEXT_DIM"
  shows "\<exists>\<sigma>. 0 \<le> \<sigma> \<and> (x \<noteq> zero_vec CONTEXT_DIM \<longrightarrow> 0 < \<sigma>)
             \<and> dot \<theta>' x = dot \<theta> x + \<sigma> * (1 - dot \<theta> x) / (1 + \<sigma>)"
proof -
  let ?A = "arm_A s" and ?b = "arm_b s"
  from reachable_arm_invariant [OF r]
  have m: "is_mat CONTEXT_DIM ?A" and b: "length ?b = CONTEXT_DIM"
    and sy: "symmetric CONTEXT_DIM ?A"
    and pd: "\<And>v. length v = CONTEXT_DIM \<Longrightarrow> v \<noteq> zero_vec CONTEXT_DIM
               \<Longrightarrow> 0 < dot v (mat_vec ?A v)"
    and sol: "\<And>y. length y = CONTEXT_DIM
               \<Longrightarrow> \<exists>w. length w = CONTEXT_DIM \<and> mat_vec ?A w = y"
    by blast+
  from t b have th: "length \<theta> = CONTEXT_DIM" "mat_vec ?A \<theta> = ?b"
    by (simp_all add: is_theta_def is_vec_def)
  from sol [OF x] obtain u where u: "length u = CONTEXT_DIM" "mat_vec ?A u = x" by blast
  define \<sigma> where "\<sigma> = dot x u"
  have quad: "\<sigma> = dot u (mat_vec ?A u)" by (simp add: \<sigma>_def u(2) dot_commute)
  have sig0: "0 \<le> \<sigma>" unfolding quad using m pd u(1) by (rule pos_def_nonneg)
  have sigpos: "0 < \<sigma>" if "x \<noteq> zero_vec CONTEXT_DIM"
  proof -
    have "u \<noteq> zero_vec CONTEXT_DIM"
    proof
      assume "u = zero_vec CONTEXT_DIM"
      then have "mat_vec ?A u = zero_vec CONTEXT_DIM"
        using m by (simp add: mat_vec_zero is_mat_length)
      with u(2) that show False by simp
    qed
    with pd [OF u(1)] show ?thesis by (simp add: quad)
  qed
  define p where "p = dot \<theta> x"
  define c where "c = (1 - p) / (1 + \<sigma>)"
  define \<theta>s where "\<theta>s = vec_add \<theta> (scale c u)"
  have ls: "length \<theta>s = CONTEXT_DIM" by (simp add: \<theta>s_def th u)
  have "mat_vec ?A \<theta>s = vec_add ?b (scale c x)"
    by (simp add: \<theta>s_def mat_vec_vec_add mat_vec_scale th u)
  moreover have "dot x \<theta>s = p + c * \<sigma>"
    by (simp add: \<theta>s_def dot_add_right dot_scale_right th u \<sigma>_def p_def dot_commute [of x \<theta>])
  ultimately have "mat_vec (mat_add ?A (outer x x)) \<theta>s
      = vec_add (vec_add ?b (scale c x)) (scale (p + c * \<sigma>) x)"
    by (simp add: mat_vec_update [OF m x])
  also have "\<dots> = vec_add ?b (scale (c + (p + c * \<sigma>)) x)"
    by (rule vec_add_scale_scale)
  also have "c + (p + c * \<sigma>) = 1"
    using sig0 by (simp add: c_def field_simps)
  finally have "mat_vec (arm_A (arm_update x 1 s)) \<theta>s = arm_b (arm_update x 1 s)"
    by (simp add: arm_update_def)
  then have ts: "is_theta (arm_update x 1 s) \<theta>s"
    using ls b x by (simp add: is_theta_def is_vec_def arm_update_def)
  have "reachable_arm (arm_update (ensure_shape CONTEXT_DIM x) 1 s)"
    using r by (rule reachable_update)
  then have "reachable_arm (arm_update x 1 s)" by (simp add: ensure_shape_id x)
  then have "\<theta>' = \<theta>s" using t' ts by (rule is_theta_unique)
  then have "dot \<theta>' x = p + c * \<sigma>"
    by (simp add: \<theta>s_def dot_add_left dot_scale_left th u p_def \<sigma>_def dot_commute [of u x])
  then have "dot \<theta>' x = dot \<theta> x + \<sigma> * (1 - dot \<theta> x) / (1 + \<sigma>)"
    by (simp add: c_def p_def)
  with sig0 sigpos show ?thesis by blast
qed

text \<open>For the zero context every weight vector predicts 0, before and after an update.\<close>

lemma expected_reward_zero_context: "expected_reward \<theta> (zero_vec n) = 0"
  by (simp add: expected_reward_def dot_zero_right)

text \<open>
  C7, amended: in every state an arm reaches, for a shaped context \<open>x\<close> that is not the
  zero vector, an update with \<open>x\<close> and reward 1 makes the expected reward \<open>\<theta>\<^sup>T x\<close>
  strictly greater exactly when it was below 1, leaves it unchanged exactly when it was 1,
  and makes it strictly smaller exactly when it was above 1.
\<close>

theorem positive_feedback_moves_prediction:
  assumes "reachable_arm s"
      and "is_theta s \<theta>"
      and "is_theta (arm_update (ensure_shape CONTEXT_DIM ctx) 1 s) \<theta>'"
      and "ensure_shape CONTEXT_DIM ctx \<noteq> zero_vec CONTEXT_DIM"
  shows "(expected_reward \<theta> (ensure_shape CONTEXT_DIM ctx)
            < expected_reward \<theta>' (ensure_shape CONTEXT_DIM ctx)
          \<longleftrightarrow> expected_reward \<theta> (ensure_shape CONTEXT_DIM ctx) < 1)
       \<and> (expected_reward \<theta>' (ensure_shape CONTEXT_DIM ctx)
            = expected_reward \<theta> (ensure_shape CONTEXT_DIM ctx)
          \<longleftrightarrow> expected_reward \<theta> (ensure_shape CONTEXT_DIM ctx) = 1)
       \<and> (expected_reward \<theta>' (ensure_shape CONTEXT_DIM ctx)
            < expected_reward \<theta> (ensure_shape CONTEXT_DIM ctx)
          \<longleftrightarrow> 1 < expected_reward \<theta> (ensure_shape CONTEXT_DIM ctx))"
proof -
  let ?x = "ensure_shape CONTEXT_DIM ctx"
  have "length ?x = CONTEXT_DIM" by simp
  with update_prediction [OF assms(1-3)] assms(4)
  obtain \<sigma> where sig: "0 < \<sigma>"
    and eq: "dot \<theta>' ?x = dot \<theta> ?x + \<sigma> * (1 - dot \<theta> ?x) / (1 + \<sigma>)"
    by blast
  define k where "k = \<sigma> / (1 + \<sigma>)"
  have k: "0 < k" using sig by (simp add: k_def)
  have d: "dot \<theta>' ?x - dot \<theta> ?x = k * (1 - dot \<theta> ?x)"
    by (simp add: eq k_def)
  have "0 < k * (1 - dot \<theta> ?x) \<longleftrightarrow> 0 < 1 - dot \<theta> ?x"
    using k by (simp add: zero_less_mult_iff)
  moreover have "k * (1 - dot \<theta> ?x) = 0 \<longleftrightarrow> 1 - dot \<theta> ?x = 0"
    using k by simp
  moreover have "k * (1 - dot \<theta> ?x) < 0 \<longleftrightarrow> 1 - dot \<theta> ?x < 0"
    using k by (simp add: mult_less_0_iff)
  ultimately show ?thesis
    unfolding expected_reward_def using d by auto
qed

theorem positive_feedback_moves_prediction_witness:
  "reachable_arm (
      arm_update (ensure_shape CONTEXT_DIM (build_context_features (1 / 2) ''neutral'' (1 / 2) (Some 1980))) 1
        (init_arm CONTEXT_DIM))
   \<and> is_theta (
       arm_update (ensure_shape CONTEXT_DIM (build_context_features (1 / 2) ''neutral'' (1 / 2) (Some 1980))) 1
         (init_arm CONTEXT_DIM))
       [2 / 11, 0, 0, 0, 0, 4 / 11, 0, 0, 2 / 11, - 2 / 11, 0, 0]
   \<and> is_theta (
       arm_update (ensure_shape CONTEXT_DIM (build_context_features (1 / 2) ''neutral'' (1 / 2) (Some 1980))) 1
         (arm_update (ensure_shape CONTEXT_DIM (build_context_features (1 / 2) ''neutral'' (1 / 2) (Some 1980))) 1
           (init_arm CONTEXT_DIM)))
       [2 / 9, 0, 0, 0, 0, 4 / 9, 0, 0, 2 / 9, - 2 / 9, 0, 0]
   \<and> ensure_shape CONTEXT_DIM (build_context_features (1 / 2) ''neutral'' (1 / 2) (Some 1980)) \<noteq> zero_vec CONTEXT_DIM
   \<and> expected_reward [2 / 11, 0, 0, 0, 0, 4 / 11, 0, 0, 2 / 11, - 2 / 11, 0, 0]
       (ensure_shape CONTEXT_DIM (build_context_features (1 / 2) ''neutral'' (1 / 2) (Some 1980))) < 1
   \<and> expected_reward [2 / 11, 0, 0, 0, 0, 4 / 11, 0, 0, 2 / 11, - 2 / 11, 0, 0]
       (ensure_shape CONTEXT_DIM (build_context_features (1 / 2) ''neutral'' (1 / 2) (Some 1980)))
       < expected_reward [2 / 9, 0, 0, 0, 0, 4 / 9, 0, 0, 2 / 9, - 2 / 9, 0, 0]
           (ensure_shape CONTEXT_DIM (build_context_features (1 / 2) ''neutral'' (1 / 2) (Some 1980)))"
proof -
  have r: "reachable_arm (
      arm_update (ensure_shape CONTEXT_DIM (build_context_features (1 / 2) ''neutral'' (1 / 2) (Some 1980))) 1
        (init_arm CONTEXT_DIM))"
    by (intro reachable_update reachable_init)
  have a: "is_theta (
      arm_update (ensure_shape CONTEXT_DIM (build_context_features (1 / 2) ''neutral'' (1 / 2) (Some 1980))) 1
        (init_arm CONTEXT_DIM))
      [2 / 11, 0, 0, 0, 0, 4 / 11, 0, 0, 2 / 11, - 2 / 11, 0, 0]"
    by code_simp
  have b: "is_theta (
      arm_update (ensure_shape CONTEXT_DIM (build_context_features (1 / 2) ''neutral'' (1 / 2) (Some 1980))) 1
        (arm_update (ensure_shape CONTEXT_DIM (build_context_features (1 / 2) ''neutral'' (1 / 2) (Some 1980))) 1
          (init_arm CONTEXT_DIM)))
      [2 / 9, 0, 0, 0, 0, 4 / 9, 0, 0, 2 / 9, - 2 / 9, 0, 0]"
    by code_simp
  have c: "ensure_shape CONTEXT_DIM (build_context_features (1 / 2) ''neutral'' (1 / 2) (Some 1980)) \<noteq> zero_vec CONTEXT_DIM"
    by code_simp
  have d: "expected_reward [2 / 11, 0, 0, 0, 0, 4 / 11, 0, 0, 2 / 11, - 2 / 11, 0, 0]
      (ensure_shape CONTEXT_DIM (build_context_features (1 / 2) ''neutral'' (1 / 2) (Some 1980))) < 1"
    by code_simp
  from positive_feedback_moves_prediction [OF r a b c] r a b c d show ?thesis by blast
qed

text \<open>
  C7 as stated fails: after two positive feedback events of a user born in 1980 with
  positive rate 1/2, the arm predicts 19/18 for a user born in 1950 with positive rate 1;
  a positive feedback event in that context lowers the prediction to 85/83.
\<close>

theorem positive_feedback_can_lower_prediction:
  "reachable_arm (
      arm_update (ensure_shape CONTEXT_DIM (build_context_features (1 / 2) ''neutral'' (1 / 2) (Some 1980))) 1
        (arm_update (ensure_shape CONTEXT_DIM (build_context_features (1 / 2) ''neutral'' (1 / 2) (Some 1980))) 1
          (init_arm CONTEXT_DIM)))
   \<and> is_theta (
       arm_update (ensure_shape CONTEXT_DIM (build_context_features (1 / 2) ''neutral'' (1 / 2) (Some 1980))) 1
         (arm_update (ensure_shape CONTEXT_DIM (build_context_features (1 / 2) ''neutral'' (1 / 2) (Some 1980))) 1
           (init_arm CONTEXT_DIM)))
       [2 / 9, 0, 0, 0, 0, 4 / 9, 0, 0, 2 / 9, - 2 / 9, 0, 0]
   \<and> is_theta (
       arm_update (ensure_shape CONTEXT_DIM (build_context_features (1 / 2) ''neutral'' 1 (Some 1950))) 1
         (arm_update (ensure_shape CONTEXT_DIM (build_context_features (1 / 2) ''neutral'' (1 / 2) (Some 1980))) 1
           (arm_update (ensure_shape CONTEXT_DIM (build_context_features (1 / 2) ''neutral'' (1 / 2) (Some 1980))) 1
             (init_arm CONTEXT_DIM))))
       [37 / 166, 0, 0, 0, 0, 37 / 83, 0, 0, 35 / 166, - 17 / 83, 0, 0]
   \<and> expected_reward [2 / 9, 0, 0, 0, 0, 4 / 9, 0, 0, 2 / 9, - 2 / 9, 0, 0]
       (ensure_shape CONTEXT_DIM (build_context_features (1 / 2) ''neutral'' 1 (Some 1950))) = 19 / 18
   \<and> expected_reward [37 / 166, 0, 0, 0, 0, 37 / 83, 0, 0, 35 / 166, - 17 / 83, 0, 0]
       (ensure_shape CONTEXT_DIM (build_context_features (1 / 2) ''neutral'' 1 (Some 1950))) = 85 / 83
   \<and> expected_reward [37 / 166, 0, 0, 0, 0, 37 / 83, 0, 0, 35 / 166, - 17 / 83, 0, 0]
       (ensure_shape CONTEXT_DIM (build_context_features (1 / 2) ''neutral'' 1 (Some 1950)))
       < expected_reward [2 / 9, 0, 0, 0, 0, 4 / 9, 0, 0, 2 / 9, - 2 / 9, 0, 0]
           (ensure_shape CONTEXT_DIM (build_context_features (1 / 2) ''neutral'' 1 (Some 1950)))"
proof -
  have "reachable_arm (
      arm_update (ensure_shape CONTEXT_DIM (build_context_features (1 / 2) ''neutral'' (1 / 2) (Some 1980))) 1
        (arm_update (ensure_shape CONTEXT_DIM (build_context_features (1 / 2) ''neutral'' (1 / 2) (Some 1980))) 1
          (init_arm CONTEXT_DIM)))"
    by (intro reachable_update reachable_init)
  moreover have "is_theta (
      arm_update (ensure_shape CONTEXT_DIM (build_context_features (1 / 2) ''neutral'' (1 / 2) (Some 1980))) 1
        (arm_update (ensure_shape CONTEXT_DIM (build_context_features (1 / 2) ''neutral'' (1 / 2) (Some 1980))) 1
          (init_arm CONTEXT_DIM)))
      [2 / 9, 0, 0, 0, 0, 4 / 9, 0, 0, 2 / 9, - 2 / 9, 0, 0]"
    by code_simp
  moreover have "is_theta (
      arm_update (ensure_shape CONTEXT_DIM (build_context_features (1 / 2) ''neutral'' 1 (Some 1950))) 1
        (arm_update (ensure_shape CONTEXT_DIM (build_context_features (1 / 2) ''neutral'' (1 / 2) (Some 1980))) 1
          (arm_update (ensure_shape CONTEXT_DIM (build_context_features (1 / 2) ''neutral'' (1 / 2) (Some 1980))) 1
            (init_arm CONTEXT_DIM))))
      [37 / 166, 0, 0, 0, 0, 37 / 83, 0, 0, 35 / 166, - 17 / 83, 0, 0]"
    by code_simp
  moreover have "expected_reward [2 / 9, 0, 0, 0, 0, 4 / 9, 0, 0, 2 / 9, - 2 / 9, 0, 0]
      (ensure_shape CONTEXT_DIM (build_context_features (1 / 2) ''neutral'' 1 (Some 1950))) = 19 / 18"
    by code_simp
  moreover have "expected_reward [37 / 166, 0, 0, 0, 0, 37 / 83, 0, 0, 35 / 166, - 17 / 83, 0, 0]
      (ensure_shape CONTEXT_DIM (build_context_features (1 / 2) ''neutral'' 1 (Some 1950))) = 85 / 83"
    by code_simp
  moreover have "expected_reward [37 / 166, 0, 0, 0, 0, 37 / 83, 0, 0, 35 / 166, - 17 / 83, 0, 0]
      (ensure_shape CONTEXT_DIM (build_context_features (1 / 2) ''neutral'' 1 (Some 1950)))
       < expected_reward [2 / 9, 0, 0, 0, 0, 4 / 9, 0, 0, 2 / 9, - 2 / 9, 0, 0]
           (ensure_shape CONTEXT_DIM (build_context_features (1 / 2) ''neutral'' 1 (Some 1950)))"
    by code_simp
  ultimately show ?thesis by blast
qed

subsection \<open>The weights from the inverse\<close>

lemma mat_mul_row:
  assumes "i < n"
  shows "mat_mul n A B ! i = map (\<lambda>j. \<Sum>k<n. A ! i ! k * B ! k ! j) [0..<n]"
  using assms by (simp add: mat_mul_def sum_list_upt)

lemma mat_vec_mat_mul:
  assumes a: "is_mat n A" and b: "is_mat n B" and v: "length v = n"
  shows "mat_vec (mat_mul n A B) v = mat_vec A (mat_vec B v)"
proof (rule nth_equalityI)
  show "length (mat_vec (mat_mul n A B) v) = length (mat_vec A (mat_vec B v))"
    using a by (simp add: mat_mul_def is_mat_length)
next
  fix i assume "i < length (mat_vec (mat_mul n A B) v)"
  then have i: "i < n" by (simp add: mat_mul_def)
  have la: "length A = n" and lb: "length B = n"
    using a b by (simp_all add: is_mat_length)
  have "dot (mat_mul n A B ! i) v = (\<Sum>j<n. mat_mul n A B ! i ! j * v ! j)"
    using i v by (intro dot_sum) (simp_all add: mat_mul_row)
  also have "\<dots> = (\<Sum>j<n. \<Sum>k<n. A ! i ! k * (B ! k ! j * v ! j))"
    using i by (intro sum.cong) (simp_all add: mat_mul_row sum_distrib_right mult.assoc)
  also have "\<dots> = (\<Sum>k<n. \<Sum>j<n. A ! i ! k * (B ! k ! j * v ! j))"
    by (rule sum.swap)
  also have "\<dots> = (\<Sum>k<n. A ! i ! k * dot (B ! k) v)"
    using v by (intro sum.cong) (simp_all add: dot_sum [OF is_mat_row [OF b]] sum_distrib_left)
  also have "\<dots> = (\<Sum>k<n. A ! i ! k * mat_vec B v ! k)"
    using lb by (intro sum.cong) (simp_all add: mat_vec_nth)
  also have "\<dots> = dot (A ! i) (mat_vec B v)"
    using is_mat_row [OF a i] lb by (intro dot_sum [symmetric]) simp_all
  finally show "mat_vec (mat_mul n A B) v ! i = mat_vec A (mat_vec B v) ! i"
    using i la by (simp add: mat_vec_nth mat_mul_def)
qed

lemma is_theta_inverse:
  assumes "reachable_arm s" and "is_inverse CONTEXT_DIM (arm_A s) B"
  shows "is_theta s (mat_vec B (arm_b s))"
proof -
  from reachable_arm_invariant [OF assms(1)]
  have m: "is_mat CONTEXT_DIM (arm_A s)" and b: "length (arm_b s) = CONTEXT_DIM"
    by blast+
  from assms(2) have mB: "is_mat CONTEXT_DIM B"
    and ab: "mat_mul CONTEXT_DIM (arm_A s) B = identity CONTEXT_DIM"
    by (simp_all add: is_inverse_def)
  have "mat_vec (arm_A s) (mat_vec B (arm_b s)) = mat_vec (mat_mul CONTEXT_DIM (arm_A s) B) (arm_b s)"
    using m mB b by (rule mat_vec_mat_mul [symmetric])
  also have "\<dots> = arm_b s" by (simp add: ab mat_vec_identity b)
  finally show ?thesis
    using mB b by (simp add: is_theta_def is_vec_def is_mat_length)
qed

text \<open>
  C9: in every state an arm reaches from the identity matrix by updates
  \<open>A \<leftarrow> A + x x\<^sup>T\<close>, the matrix \<open>A\<close> is symmetric and positive definite, it has an
  inverse matrix \<open>B\<close>, and \<open>\<theta> = B b\<close> are the weights of the arm.
\<close>

theorem reachable_arm_spd_invertible:
  assumes "reachable_arm s"
  shows "symmetric CONTEXT_DIM (arm_A s)
       \<and> (length v = CONTEXT_DIM \<and> v \<noteq> zero_vec CONTEXT_DIM
            \<longrightarrow> 0 < dot v (mat_vec (arm_A s) v))
       \<and> (\<exists>B. is_inverse CONTEXT_DIM (arm_A s) B \<and> is_theta s (mat_vec B (arm_b s)))"
proof -
  from reachable_arm_invariant [OF assms]
  have m: "is_mat CONTEXT_DIM (arm_A s)" and b: "length (arm_b s) = CONTEXT_DIM"
    and sy: "symmetric CONTEXT_DIM (arm_A s)"
    and pd: "\<And>v. length v = CONTEXT_DIM \<Longrightarrow> v \<noteq> zero_vec CONTEXT_DIM
               \<Longrightarrow> 0 < dot v (mat_vec (arm_A s) v)"
    and sol: "\<And>y. length y = CONTEXT_DIM
               \<Longrightarrow> \<exists>w. length w = CONTEXT_DIM \<and> mat_vec (arm_A s) w = y"
    by blast+
  obtain B where "is_inverse CONTEXT_DIM (arm_A s) B"
    using inverse_exists [OF m sy sol] by blast
  with is_theta_inverse [OF assms]
  have "\<exists>B. is_inverse CONTEXT_DIM (arm_A s) B \<and> is_theta s (mat_vec B (arm_b s))"
    by blast
  then show ?thesis using sy pd by blast
qed

theorem reachable_arm_spd_invertible_witness:
  "reachable_arm (
      arm_update (ensure_shape CONTEXT_DIM (build_context_features (1 / 2) ''neutral'' (1 / 2) (Some 1980))) 1
        (init_arm CONTEXT_DIM))
   \<and> length (ensure_shape CONTEXT_DIM [1]) = CONTEXT_DIM
   \<and> ensure_shape CONTEXT_DIM [1] \<noteq> zero_vec CONTEXT_DIM
   \<and> symmetric CONTEXT_DIM (arm_A (
       arm_update (ensure_shape CONTEXT_DIM (build_context_features (1 / 2) ''neutral'' (1 / 2) (Some 1980))) 1
         (init_arm CONTEXT_DIM)))
   \<and> 0 < dot (ensure_shape CONTEXT_DIM [1]) (mat_vec (arm_A (
       arm_update (ensure_shape CONTEXT_DIM (build_context_features (1 / 2) ''neutral'' (1 / 2) (Some 1980))) 1
         (init_arm CONTEXT_DIM))) (ensure_shape CONTEXT_DIM [1]))
   \<and> (\<exists>B. is_inverse CONTEXT_DIM (arm_A (
       arm_update (ensure_shape CONTEXT_DIM (build_context_features (1 / 2) ''neutral'' (1 / 2) (Some 1980))) 1
         (init_arm CONTEXT_DIM))) B
         \<and> is_theta (
       arm_update (ensure_shape CONTEXT_DIM (build_context_features (1 / 2) ''neutral'' (1 / 2) (Some 1980))) 1
         (init_arm CONTEXT_DIM))
              (mat_vec B (arm_b (
       arm_update (ensure_shape CONTEXT_DIM (build_context_features (1 / 2) ''neutral'' (1 / 2) (Some 1980))) 1
         (init_arm CONTEXT_DIM)))))"
proof -
  have r: "reachable_arm (
      arm_update (ensure_shape CONTEXT_DIM (build_context_features (1 / 2) ''neutral'' (1 / 2) (Some 1980))) 1
        (init_arm CONTEXT_DIM))"
    by (intro reachable_update reachable_init)
  have v: "length (ensure_shape CONTEXT_DIM [1]) = CONTEXT_DIM" "ensure_shape CONTEXT_DIM [1] \<noteq> zero_vec CONTEXT_DIM"
    by code_simp+
  from reachable_arm_spd_invertible [OF r, of "ensure_shape CONTEXT_DIM [1]"] r v show ?thesis by blast
qed

subsection \<open>The arms of a model\<close>

lemma reachable_arm_fit:
  "reachable_arm (mab_fit arm reward (ensure_shape CONTEXT_DIM ctx) a)"
  by (simp add: mab_fit_def reachable_init reachable_update)

lemma reachable_arm_partial_fit:
  assumes "\<And>a. reachable_arm (arms a)"
  shows "reachable_arm (mab_partial_fit arm reward (ensure_shape CONTEXT_DIM ctx) arms a)"
  using assms by (simp add: mab_partial_fit_def reachable_update)

lemma linucb_update_arms_reachable:
  assumes "\<And>a. reachable_arm (mab m a)"
  shows "reachable_arm (mab (linucb_update ctx cand reward m) a)"
  using assms
  by (simp add: linucb_update_def Let_def reachable_arm_fit reachable_arm_partial_fit)

lemma init_model_arms_reachable: "reachable_arm (mab init_model a)"
  by (simp add: init_model_def reachable_init)

end
